theory Spec2Isabelle
  imports Main "HOL-Library.AList" "HOL-Library.Multiset" "HOL-Library.Product_Lexorder"
begin

section \<open>Decimal numerals\<close>

text \<open>
  A number turned into a string, as in a template literal or in a property key: its
  decimal digits, without padding. \<open>readNat\<close> reads a string of digits back.
\<close>

definition digitChar :: "nat \<Rightarrow> char" where
  "digitChar n = ''0123456789'' ! n"

fun showNat :: "nat \<Rightarrow> string" where
  "showNat n = (if n < 10 then [digitChar n] else showNat (n div 10) @ [digitChar (n mod 10)])"

declare showNat.simps [simp del]

definition digitVal :: "char \<Rightarrow> nat" where
  "digitVal c = of_char c - 48"

definition readNat :: "string \<Rightarrow> nat" where
  "readNat s = foldl (\<lambda>n c. 10 * n + digitVal c) 0 s"

section \<open>Study events and the ranker\<close>

text \<open>
  The program is the object \<open>jpApp\<close> of \<open>app.js\<close>. A study event is the object
  \<open>{ itemId, itemType, outcome, ts }\<close> that \<open>logStudy\<close> pushes; \<open>ts\<close> is the number of
  milliseconds since the epoch, an integer that may be negative.
\<close>

record study_event =
  itemId :: string
  itemType :: string
  outcome :: string
  ts :: int

text \<open>
  The numbers of \<open>_rankEvents\<close> are integers or \<open>NaN\<close>. \<open>Math.max\<close> and the subtraction
  give \<open>NaN\<close> as soon as an argument is \<open>NaN\<close> or converts to it, as \<open>undefined\<close>, a
  function and an object do. A number is truthy when it is neither 0 nor \<open>NaN\<close>;
  \<open>x || y\<close> is \<open>x\<close> when \<open>x\<close> is truthy and \<open>y\<close> otherwise.
\<close>

datatype jsnum = Num int | NaN

fun mathMax :: "jsnum \<Rightarrow> jsnum \<Rightarrow> jsnum" where
  "mathMax (Num a) (Num b) = Num (max a b)"
| "mathMax (Num a) NaN = NaN"
| "mathMax NaN b = NaN"

fun numSub :: "jsnum \<Rightarrow> jsnum \<Rightarrow> jsnum" where
  "numSub (Num a) (Num b) = Num (a - b)"
| "numSub (Num a) NaN = NaN"
| "numSub NaN b = NaN"

fun truthy :: "jsnum \<Rightarrow> bool" where
  "truthy (Num n) = (n \<noteq> 0)"
| "truthy NaN = False"

definition orElse :: "jsnum \<Rightarrow> jsnum \<Rightarrow> jsnum" where
  "orElse x y = (if truthy x then x else y)"

text \<open>The accumulator object \<open>{ itemId, best, lastTs }\<close> of \<open>_rankEvents\<close>.\<close>

record rank_entry =
  r_itemId :: string
  best :: jsnum
  lastTs :: jsnum

text \<open>
  The tables \<open>score\<close> and \<open>map\<close> are plain objects, so a key that they do not hold
  themselves is looked up in \<open>Object.prototype\<close>. These are the names of its members:
  eleven functions and the accessor \<open>__proto__\<close>.
\<close>

definition protoNames :: "string list" where
  "protoNames =
     [''constructor'', ''hasOwnProperty'', ''isPrototypeOf'', ''propertyIsEnumerable'',
      ''toLocaleString'', ''toString'', ''valueOf'', ''__proto__'',
      ''__defineGetter__'', ''__defineSetter__'', ''__lookupGetter__'', ''__lookupSetter__'']"

text \<open>
  \<open>const s = score[e.outcome] || 0\<close> with \<open>score = { wrong: 3, correct: 2, view: 1 }\<close>, as
  \<open>Math.max(prev.best, s)\<close> sees it. A key of the table reads its weight. A key that names
  a member of \<open>Object.prototype\<close> reads that member, a function or an object, which is
  truthy, so that \<open>|| 0\<close> does not apply, and which \<open>Math.max\<close> converts to \<open>NaN\<close>. Every
  other key reads \<open>undefined\<close>, which \<open>||\<close> turns into 0.
\<close>

definition score :: "string \<Rightarrow> jsnum" where
  "score out =
     (if out = ''wrong'' then Num 3
      else if out = ''correct'' then Num 2
      else if out = ''view'' then Num 1
      else if out \<in> set protoNames then NaN
      else Num 0)"

text \<open>
  The object \<open>map\<close>. Its own keys are an association list in the order of their creation:
  \<open>map[id] = v\<close> replaces the value of a key that is present, in place, and appends a new
  key at the end (\<^const>\<open>AList.update\<close>). The one key that is never created is
  \<open>__proto__\<close>: assigning an object to it makes that object the prototype of \<open>map\<close>, in
  front of \<open>Object.prototype\<close>. \<open>proto\<close> is the object installed in this way, if any.
\<close>

record rank_map =
  own :: "(string \<times> rank_entry) list"
  proto :: "rank_entry option"

text \<open>
  What \<open>map[k]\<close> reads: nothing (\<open>undefined\<close>), an accumulator, or a value of another
  kind, of which only its being truthy matters. An own key reads its accumulator.
  \<open>__proto__\<close> reads the prototype of \<open>map\<close>: the installed object, or
  \<open>Object.prototype\<close> itself. Any other key is looked up along the prototypes: first in
  the installed object, whose keys are \<open>itemId\<close>, \<open>best\<close> and \<open>lastTs\<close> and hold a
  string and two numbers, then in \<open>Object.prototype\<close>.
\<close>

datatype looked = Missing | Entry rank_entry | Foreign bool

definition lookupMap :: "rank_map \<Rightarrow> string \<Rightarrow> looked" where
  "lookupMap m k =
     (case map_of (own m) k of
        Some r \<Rightarrow> Entry r
      | None \<Rightarrow>
          if k = ''__proto__'' then
            (case proto m of Some p \<Rightarrow> Entry p | None \<Rightarrow> Foreign True)
          else
            (case proto m of
               Some p \<Rightarrow>
                 if k = ''itemId'' then Foreign (r_itemId p \<noteq> [])
                 else if k = ''best'' then Foreign (truthy (best p))
                 else if k = ''lastTs'' then Foreign (truthy (lastTs p))
                 else if k \<in> set protoNames then Foreign True
                 else Missing
             | None \<Rightarrow> if k \<in> set protoNames then Foreign True else Missing))"

text \<open>
  \<open>const prev = map[id] || { itemId: id, best: 0, lastTs: 0 }\<close>, as the pair of
  \<open>prev.best\<close> and \<open>prev.lastTs\<close> that \<open>Math.max\<close> sees: a truthy value that is no
  accumulator has neither property, and \<open>undefined\<close> converts to \<open>NaN\<close>.
\<close>

fun prevFields :: "looked \<Rightarrow> jsnum \<times> jsnum" where
  "prevFields Missing = (Num 0, Num 0)"
| "prevFields (Entry r) = (best r, lastTs r)"
| "prevFields (Foreign t) = (if t then (NaN, NaN) else (Num 0, Num 0))"

text \<open>\<open>rankStep\<close> is the body of the \<open>forEach\<close>.\<close>

definition rankStep :: "rank_map \<Rightarrow> study_event \<Rightarrow> rank_map" where
  "rankStep m e =
     (let id = itemId e;
          prev = prevFields (lookupMap m id);
          s = score (outcome e);
          entry = \<lparr>r_itemId = id, best = mathMax (fst prev) s,
                   lastTs = mathMax (snd prev) (Num (ts e))\<rparr>
      in if id = ''__proto__'' then m\<lparr>proto := Some entry\<rparr>
         else m\<lparr>own := AList.update id entry (own m)\<rparr>)"

definition accumulate :: "study_event list \<Rightarrow> rank_map" where
  "accumulate events = foldl rankStep \<lparr>own = [], proto = None\<rparr> events"

text \<open>
  \<open>Object.values(map)\<close> lists the values of the own keys: first the keys that are array
  indices (the decimal numerals of the numbers below 4294967295), in numeric order,
  then the other keys in the order of their creation.
\<close>

definition isArrayIndex :: "string \<Rightarrow> bool" where
  "isArrayIndex s \<longleftrightarrow> showNat (readNat s) = s \<and> readNat s < 4294967295"

definition objectValues :: "rank_map \<Rightarrow> rank_entry list" where
  "objectValues m =
     map snd
       (sort_key (\<lambda>p. readNat (fst p)) (filter (\<lambda>p. isArrayIndex (fst p)) (own m))
        @ filter (\<lambda>p. \<not> isArrayIndex (fst p)) (own m))"

text \<open>The comparator \<open>(a, b) => b.best - a.best || a.lastTs - b.lastTs\<close>.\<close>

definition compareRank :: "rank_entry \<Rightarrow> rank_entry \<Rightarrow> jsnum" where
  "compareRank a b = orElse (numSub (best b) (best a)) (numSub (lastTs a) (lastTs b))"

text \<open>
  \<open>Array.prototype.sort\<close> takes a comparator result \<open>NaN\<close> for 0 and is stable: elements
  that compare equal keep their order. With a consistent comparator its result is the
  one of this insertion sort, which puts an element before the first element it does not
  follow. The comparator above is consistent on accumulators without \<open>NaN\<close>, and on any
  two accumulators; on three or more accumulators with \<open>NaN\<close> it need not be, and the
  order that the sort leaves then is up to the engine.
\<close>

fun sortValue :: "jsnum \<Rightarrow> int" where
  "sortValue (Num n) = n"
| "sortValue NaN = 0"

fun insertBy :: "('a \<Rightarrow> 'a \<Rightarrow> jsnum) \<Rightarrow> 'a \<Rightarrow> 'a list \<Rightarrow> 'a list" where
  "insertBy c x [] = [x]"
| "insertBy c x (y # ys) = (if sortValue (c x y) \<le> 0 then x # y # ys else y # insertBy c x ys)"

definition sortBy :: "('a \<Rightarrow> 'a \<Rightarrow> jsnum) \<Rightarrow> 'a list \<Rightarrow> 'a list" where
  "sortBy c xs = foldr (insertBy c) xs []"

definition ranked :: "study_event list \<Rightarrow> rank_entry list" where
  "ranked events = sortBy compareRank (objectValues (accumulate events))"

definition rankEvents :: "study_event list \<Rightarrow> string list" where
  "rankEvents events = map r_itemId (ranked events)"

text \<open>
  The severity weights as the specification gives them: wrong 3, correct 2, view 1 and 0
  for every other outcome.
\<close>

definition weight :: "string \<Rightarrow> int" where
  "weight out =
     (if out = ''wrong'' then 3
      else if out = ''correct'' then 2
      else if out = ''view'' then 1
      else 0)"

text \<open>
  An event is plain when neither its item id nor its outcome names a member of
  \<open>Object.prototype\<close>. The ids and outcomes that the program itself writes (\<open>D1W2\<close>,
  \<open>D1P\<close>, \<open>correct\<close>, \<open>wrong\<close>) are plain.
\<close>

definition plainEvent :: "study_event \<Rightarrow> bool" where
  "plainEvent e \<longleftrightarrow> itemId e \<notin> set protoNames \<and> outcome e \<notin> set protoNames"

text \<open>The events of one item, and the sort key that the comparator induces.\<close>

definition eventsOf :: "string \<Rightarrow> study_event list \<Rightarrow> study_event list" where
  "eventsOf i events = filter (\<lambda>e. itemId e = i) events"

definition rankKey :: "rank_entry \<Rightarrow> int \<times> int" where
  "rankKey r = (- sortValue (best r), sortValue (lastTs r))"

text \<open>
  What the accumulator of item \<open>i\<close> holds after plain events: the maximum of 0 and the
  weights, and the maximum of 0 and the timestamps, of the events of \<open>i\<close>.
\<close>

definition entryOf :: "string \<Rightarrow> study_event list \<Rightarrow> rank_entry" where
  "entryOf i es =
     \<lparr>r_itemId = i,
      best = Num (Max (insert 0 (set (map (\<lambda>e. weight (outcome e)) (eventsOf i es))))),
      lastTs = Num (Max (insert 0 (set (map ts (eventsOf i es)))))\<rparr>"

text \<open>
  The order the comparator sorts numbers by: \<open>best\<close> descending, then \<open>lastTs\<close>
  ascending.
\<close>

definition rankOrder :: "rank_entry \<Rightarrow> rank_entry \<Rightarrow> bool" where
  "rankOrder a b \<longleftrightarrow>
     (case (best a, lastTs a, best b, lastTs b) of
        (Num ba, Num la, Num bb, Num lb) \<Rightarrow> bb < ba \<or> (ba = bb \<and> la \<le> lb)
      | _ \<Rightarrow> False)"

text \<open>An accumulator that holds two numbers.\<close>

definition numeric :: "rank_entry \<Rightarrow> bool" where
  "numeric r \<longleftrightarrow> best r \<noteq> NaN \<and> lastTs r \<noteq> NaN"

section \<open>The catalog and quiz resolution\<close>

text \<open>
  The catalog (\<open>daily_plan.json\<close>) is a list of days
  \<open>{ pattern, pattern_ko, words: [{ jp, ko }, ...] }\<close>. A quiz item is the object
  \<open>{ id, type, jp, ko }\<close> that \<open>generateQuizData\<close> pushes (the fields are prefixed with
  \<open>q\<close> here).
\<close>

record word_entry =
  jp :: string
  ko :: string

record day_entry =
  pattern :: string
  pattern_ko :: string
  words :: "word_entry list"

record quiz_item =
  qid :: string
  qtype :: string
  qjp :: string
  qko :: string

text \<open>The ids \<open>`D${di + 1}W${wi + 1}`\<close> and \<open>`D${di + 1}P`\<close>.\<close>

definition wordId :: "nat \<Rightarrow> nat \<Rightarrow> string" where
  "wordId di wi = ''D'' @ showNat (di + 1) @ ''W'' @ showNat (wi + 1)"

definition patternId :: "nat \<Rightarrow> string" where
  "patternId di = ''D'' @ showNat (di + 1) @ ''P''"

definition wordItem :: "nat \<Rightarrow> nat \<Rightarrow> word_entry \<Rightarrow> quiz_item" where
  "wordItem di wi w = \<lparr>qid = wordId di wi, qtype = ''word'', qjp = jp w, qko = ko w\<rparr>"

definition patternItem :: "nat \<Rightarrow> day_entry \<Rightarrow> quiz_item" where
  "patternItem di day =
     \<lparr>qid = patternId di, qtype = ''pattern'', qjp = pattern day, qko = pattern_ko day\<rparr>"

text \<open>
  \<open>generateQuizData\<close>: the inner \<open>day.words.forEach((w, wi) => ...)\<close> is \<open>wordsLoop\<close>, the
  outer \<open>plan.forEach((day, di) => ...)\<close> is \<open>daysLoop\<close>; both carry the index and the
  array \<open>items\<close> that \<open>push\<close> extends at its end.
\<close>

fun wordsLoop :: "string list \<Rightarrow> nat \<Rightarrow> nat \<Rightarrow> word_entry list \<Rightarrow> quiz_item list \<Rightarrow> quiz_item list" where
  "wordsLoop itemIds di wi [] items = items"
| "wordsLoop itemIds di wi (w # ws) items =
     wordsLoop itemIds di (wi + 1) ws
       (if wordId di wi \<in> set itemIds then items @ [wordItem di wi w] else items)"

fun daysLoop :: "string list \<Rightarrow> nat \<Rightarrow> day_entry list \<Rightarrow> quiz_item list \<Rightarrow> quiz_item list" where
  "daysLoop itemIds di [] items = items"
| "daysLoop itemIds di (day # days) items =
     (let items1 = wordsLoop itemIds di 0 (words day) items;
          items2 = (if patternId di \<in> set itemIds then items1 @ [patternItem di day] else items1)
      in daysLoop itemIds (di + 1) days items2)"

definition generateQuizData :: "string list \<Rightarrow> day_entry list \<Rightarrow> quiz_item list" where
  "generateQuizData itemIds plan = daysLoop itemIds 0 plan []"

text \<open>
  The catalog in catalog order, as the specification describes it: the days in order, in
  each day its words in order and then its pattern.
\<close>

definition dayItems :: "nat \<Rightarrow> day_entry \<Rightarrow> quiz_item list" where
  "dayItems di day =
     map (\<lambda>(wi, w). wordItem di wi w) (enumerate 0 (words day)) @ [patternItem di day]"

definition catalogItems :: "day_entry list \<Rightarrow> quiz_item list" where
  "catalogItems plan = concat (map (\<lambda>(di, day). dayItems di day) (enumerate 0 plan))"

section \<open>Calendar days in Asia/Seoul\<close>

text \<open>
  \<open>_kstYMD\<close> formats an instant with \<open>Intl.DateTimeFormat('en-CA', { timeZone: 'Asia/Seoul',
  year: 'numeric', month: '2-digit', day: '2-digit' })\<close>. The formatter belongs to the
  platform; it is modelled by what it computes. Instants are integers, the milliseconds
  since 1970-01-01T00:00Z. The formatter shifts the instant by the offset that the time
  zone database gives to Asia/Seoul at that instant, and prints the day that it falls on
  in the proleptic Gregorian calendar with the en-CA pattern \<open>y-MM-dd\<close>: the year with
  as many digits as it has, month and day with two. The table of offsets is a parameter
  of the functions below, \<open>zone\<close>; \<open>seoulOffset\<close> is the table of the database.
\<close>

definition isLeap :: "int \<Rightarrow> bool" where
  "isLeap y \<longleftrightarrow> y mod 4 = 0 \<and> (y mod 100 \<noteq> 0 \<or> y mod 400 = 0)"

definition yearLength :: "int \<Rightarrow> int" where
  "yearLength y = (if isLeap y then 366 else 365)"

text \<open>
  \<open>yearOf y r\<close>: the year and the day of the year (from 0) of the day that comes \<open>r\<close> days
  after the first of January of year \<open>y\<close>, for \<open>r\<close> not negative.
\<close>

function yearOf :: "int \<Rightarrow> int \<Rightarrow> int \<times> int" where
  "yearOf y r = (if yearLength y \<le> r then yearOf (y + 1) (r - yearLength y) else (y, r))"
  by pat_completeness auto
termination
  by (relation "measure (\<lambda>(y, r). nat r)") (auto simp: yearLength_def split: if_splits)

declare yearOf.simps [simp del]

definition monthLength :: "bool \<Rightarrow> nat \<Rightarrow> int" where
  "monthLength leap m =
     (if m = 2 then (if leap then 29 else 28)
      else if m = 4 \<or> m = 6 \<or> m = 9 \<or> m = 11 then 30
      else 31)"

text \<open>
  \<open>monthOf leap m r\<close>: month and day of the month (from 1) of the day that comes \<open>r\<close> days
  after the first of month \<open>m\<close>.
\<close>

function monthOf :: "bool \<Rightarrow> nat \<Rightarrow> int \<Rightarrow> nat \<times> int" where
  "monthOf leap m r =
     (if m < 12 \<and> monthLength leap m \<le> r then monthOf leap (m + 1) (r - monthLength leap m)
      else (m, r + 1))"
  by pat_completeness auto
termination
  by (relation "measure (\<lambda>(leap, m, r). 12 - m)") auto

declare monthOf.simps [simp del]

text \<open>
  The civil date of day number \<open>n\<close>, counted from 1970-01-01. The Gregorian calendar
  repeats every 400 years, which are 146097 days, so the search for the year starts in
  the 400-year block of \<open>n\<close>.
\<close>

definition civil :: "int \<Rightarrow> int \<times> nat \<times> int" where
  "civil n =
     (let (y, r) = yearOf (1970 + 400 * (n div 146097)) (n mod 146097);
          (m, d) = monthOf (isLeap y) 1 r
      in (y, m, d))"

definition pad2 :: "nat \<Rightarrow> string" where
  "pad2 n = (if n < 10 then ''0'' @ showNat n else showNat n)"

text \<open>
  The year as the formatter prints it: a year before 1 is printed as the year of its
  era, the year \<open>y \<le> 0\<close> as \<open>1 - y\<close>, without a sign or the name of the era.
\<close>

definition showYear :: "int \<Rightarrow> string" where
  "showYear y = showNat (nat (if y < 1 then 1 - y else y))"

definition formatYMD :: "int \<times> nat \<times> int \<Rightarrow> string" where
  "formatYMD c = (case c of (y, m, d) \<Rightarrow> showYear y @ ''-'' @ pad2 m @ ''-'' @ pad2 (nat d))"

text \<open>
  The day number of an instant in the zone, counted from 1970-01-01, and the date that
  is printed for a day number.
\<close>

definition dayString :: "int \<Rightarrow> string" where
  "dayString n = formatYMD (civil n)"

definition kstDay :: "(int \<Rightarrow> int) \<Rightarrow> int \<Rightarrow> int" where
  "kstDay zone t = (t + zone t) div (24 * 60 * 60 * 1000)"

definition kstYMD :: "(int \<Rightarrow> int) \<Rightarrow> int \<Rightarrow> string" where
  "kstYMD zone t = dayString (kstDay zone t)"

text \<open>
  A \<open>Date\<close> holds a time value of at most 8.64e15 milliseconds before or after the epoch;
  \<open>new Date(x)\<close> with \<open>x\<close> outside this range is an invalid date, and \<open>format\<close> throws a
  \<open>RangeError\<close> on it.
\<close>

definition validTime :: "int \<Rightarrow> bool" where
  "validTime t \<longleftrightarrow> - 8640000000000000 \<le> t \<and> t \<le> 8640000000000000"

text \<open>\<open>_daysAgo(n)\<close> is \<open>new Date(Date.now() - n * 24 * 60 * 60 * 1000)\<close>; \<open>now\<close> is the clock.\<close>

definition daysAgo :: "int \<Rightarrow> int \<Rightarrow> int" where
  "daysAgo now n = now - n * 24 * 60 * 60 * 1000"

text \<open>
  \<open>a <= b\<close> on two strings compares them code unit by code unit; a proper prefix is
  smaller.
\<close>

fun strLe :: "string \<Rightarrow> string \<Rightarrow> bool" where
  "strLe [] b = True"
| "strLe (x # a) [] = False"
| "strLe (x # a) (y # b) = (if x = y then strLe a b else (of_char x :: nat) < of_char y)"

text \<open>
  For the proofs: the number of days from 1970-01-01 to the first of January of year
  \<open>y\<close>, in closed form, and the number of days from the first of January to the first of
  month \<open>m\<close>.
\<close>

definition leapsBefore :: "int \<Rightarrow> int" where
  "leapsBefore y = (y - 1) div 4 - (y - 1) div 100 + (y - 1) div 400"

definition daysBeforeYear :: "int \<Rightarrow> int" where
  "daysBeforeYear y = 365 * (y - 1970) + leapsBefore y - 477"

fun daysBeforeMonth :: "bool \<Rightarrow> nat \<Rightarrow> int" where
  "daysBeforeMonth leap 0 = 0"
| "daysBeforeMonth leap (Suc m) =
     (if m = 0 then 0 else daysBeforeMonth leap m + monthLength leap m)"

text \<open>
  The year of an instant in Asia/Seoul, and the instants whose years are years from 1 on
  and are printed with the same number of digits.
\<close>

definition kstYear :: "(int \<Rightarrow> int) \<Rightarrow> int \<Rightarrow> int" where
  "kstYear zone t = fst (civil (kstDay zone t))"

definition sameYearWidth :: "(int \<Rightarrow> int) \<Rightarrow> int \<Rightarrow> int \<Rightarrow> bool" where
  "sameYearWidth zone a b \<longleftrightarrow>
     1 \<le> kstYear zone a \<and> 1 \<le> kstYear zone b \<and>
     length (showYear (kstYear zone a)) = length (showYear (kstYear zone b))"

text \<open>
  The offsets of Asia/Seoul in the time zone database (release 2025b), in milliseconds:
  local mean time, 8:27:52 ahead of UTC, until 1908; then each instant at which the
  offset changes, with the new offset. Since 8 October 1988, 17:00 UTC, the offset is nine
  hours.
\<close>

definition seoulTransitions :: "(int \<times> int) list" where
  "seoulTransitions =
     [(- 1948782472000, 30600000), (- 1830414600000, 32400000),
      (- 681210000000, 36000000), (- 672228000000, 32400000),
      (- 654771600000, 36000000), (- 640864800000, 32400000),
      (- 623408400000, 36000000), (- 609415200000, 32400000),
      (- 588848400000, 36000000), (- 577965600000, 32400000),
      (- 498128400000, 30600000),
      (- 462702600000, 34200000), (- 451733400000, 30600000),
      (- 429784200000, 34200000), (- 418296600000, 30600000),
      (- 399544200000, 34200000), (- 387451800000, 30600000),
      (- 368094600000, 34200000), (- 356002200000, 30600000),
      (- 336645000000, 34200000), (- 324552600000, 30600000),
      (- 305195400000, 34200000), (- 293103000000, 30600000),
      (- 264933000000, 32400000),
      (547578000000, 36000000), (560883600000, 32400000),
      (579027600000, 36000000), (592333200000, 32400000)]"

definition seoulOffset :: "int \<Rightarrow> int" where
  "seoulOffset t = foldl (\<lambda>off (t0, off'). if t0 \<le> t then off' else off) 30472000 seoulTransitions"

text \<open>The day number of a day of January 2025: the first of January 2025 is day 20089.\<close>

definition jan2025 :: "int \<Rightarrow> int" where
  "jan2025 d = 20088 + d"

section \<open>Storage, review sets and the quiz page\<close>

text \<open>
  \<open>localStorage\<close> holds a text under a key, and the program reads it only through
  \<open>JSON.parse(localStorage.getItem(key) || '[]')\<close>. What is under a key is therefore
  modelled by what this expression makes of it: the key is absent (\<open>getItem\<close> gives
  \<open>null\<close>), the text is empty, the text is not JSON (\<open>JSON.parse\<close> throws a
  \<open>SyntaxError\<close>), or the text is the JSON of a value, as \<open>JSON.stringify\<close> writes it.
  The values are the arrays the program stores, of events or of item ids; a text that is
  the JSON of something else is outside the model.
\<close>

datatype 'a stored = Absent | Blank | Malformed | Parsed 'a

datatype js_error = SyntaxError | TypeError | RangeError

text \<open>
  What the page shows in \<open>#quiz-container\<close>: nothing yet, the text "there are no quiz
  items", the text "quiz complete, go back home", or a question with its buttons. The
  alert of \<open>startQuiz\<close> says "there is nothing to review".
\<close>

datatype view = Untouched | NoItems | QuizComplete | Question quiz_item "string list"

datatype notice = NothingToReview

text \<open>
  The state the program works on: the two storage keys, the path of the page, the alerts
  raised so far, the container element (\<open>None\<close> when the page has none) and the variable
  \<open>current\<close> of the running quiz.
\<close>

record app =
  studyLog :: "study_event list stored"
  quizItems :: "string list stored"
  pathname :: string
  alerts :: "notice list"
  container :: "view option"
  current :: nat

definition parseStored :: "'a list stored \<Rightarrow> js_error + 'a list" where
  "parseStored s =
     (case s of
        Absent \<Rightarrow> Inr []
      | Blank \<Rightarrow> Inr []
      | Malformed \<Rightarrow> Inl SyntaxError
      | Parsed v \<Rightarrow> Inr v)"

text \<open>\<open>logStudy\<close>; \<open>now\<close> is what \<open>Date.now()\<close> returns.\<close>

definition logStudy :: "string \<Rightarrow> string \<Rightarrow> string \<Rightarrow> int \<Rightarrow> app \<Rightarrow> js_error + app" where
  "logStudy i ty out now st =
     (case parseStored (studyLog st) of
        Inl e \<Rightarrow> Inl e
      | Inr log \<Rightarrow>
          Inr (st\<lparr>studyLog :=
                 Parsed (log @ [\<lparr>itemId = i, itemType = ty, outcome = out, ts = now\<rparr>])\<rparr>))"

text \<open>
  \<open>xs.slice(0, max)\<close>: a negative \<open>max\<close> counts from the end. The parameter \<open>max\<close> of the
  review sets is \<open>maxItems\<close> here; its default is 30.
\<close>

definition slice0 :: "'a list \<Rightarrow> int \<Rightarrow> 'a list" where
  "slice0 xs m = (if m < 0 then take (nat (int (length xs) + m)) xs else take (nat m) xs)"

text \<open>
  The two review sets. \<open>_daysAgo\<close> reads the clock, whose readings are valid time
  values: \<open>getYesterdayReviewSet\<close> reads it once (\<open>now\<close>), \<open>getLast7DaysReviewSet\<close>
  twice, first for the start of the window (\<open>now7\<close>) and then for its end (\<open>now1\<close>). An
  injected clock gives the same instant to both reads. The callback of \<open>filter\<close> formats
  \<open>new Date(e.ts)\<close> for every event of the log, and throws when one of them is an invalid
  date.
\<close>

definition getYesterdayReviewSet :: "(int \<Rightarrow> int) \<Rightarrow> int \<Rightarrow> int \<Rightarrow> app \<Rightarrow> js_error + string list" where
  "getYesterdayReviewSet zone maxItems now st =
     (case parseStored (studyLog st) of
        Inl e \<Rightarrow> Inl e
      | Inr log \<Rightarrow>
          (let target = kstYMD zone (daysAgo now 1)
           in if list_all (\<lambda>e. validTime (ts e)) log then
                (let events = filter (\<lambda>e. kstYMD zone (ts e) = target) log
                 in Inr (slice0 (rankEvents events) maxItems))
              else Inl RangeError))"

definition getLast7DaysReviewSet :: "(int \<Rightarrow> int) \<Rightarrow> int \<Rightarrow> int \<Rightarrow> int \<Rightarrow> app \<Rightarrow> js_error + string list" where
  "getLast7DaysReviewSet zone maxItems now7 now1 st =
     (case parseStored (studyLog st) of
        Inl e \<Rightarrow> Inl e
      | Inr log \<Rightarrow>
          (let start = kstYMD zone (daysAgo now7 7);
               endDay = kstYMD zone (daysAgo now1 1)
           in if list_all (\<lambda>e. validTime (ts e)) log then
                (let events = filter (\<lambda>e. let d = kstYMD zone (ts e)
                                          in strLe start d \<and> strLe d endDay) log
                 in Inr (slice0 (rankEvents events) maxItems))
              else Inl RangeError))"

text \<open>
  \<open>startQuiz\<close>. The argument is \<open>None\<close> for \<open>undefined\<close> or \<open>null\<close>.
  \<open>pathname.replace(/\/[^\/]*$/, '')\<close> cuts the path at its last slash.
\<close>

definition dirName :: "string \<Rightarrow> string" where
  "dirName path =
     (if CHR ''/'' \<in> set path
      then rev (tl (dropWhile (\<lambda>c. c \<noteq> CHR ''/'') (rev path)))
      else path)"

definition startQuiz :: "string list option \<Rightarrow> app \<Rightarrow> app" where
  "startQuiz itemIds st =
     (case itemIds of
        None \<Rightarrow> st\<lparr>alerts := alerts st @ [NothingToReview]\<rparr>
      | Some ids \<Rightarrow>
          if ids = [] then st\<lparr>alerts := alerts st @ [NothingToReview]\<rparr>
          else st\<lparr>quizItems := Parsed ids, pathname := dirName (pathname st) @ ''/quiz.html''\<rparr>)"

text \<open>
  The choices of a question. \<open>Math.floor(Math.random() * n)\<close> is an index below \<open>n\<close>; the
  random source is the list of index pairs (day, word) it yields, one pair for each turn
  of the \<open>while\<close> loop. An index that is not in the array reads \<open>undefined\<close>, and the
  property access that follows throws a \<open>TypeError\<close>; this is what happens for a day
  without words, where the index is 0. The loop has no bound: the result \<open>None\<close> says
  that it is still running when the draws are used up.
\<close>

definition nthOpt :: "'a list \<Rightarrow> nat \<Rightarrow> 'a option" where
  "nthOpt xs i = (if i < length xs then Some (xs ! i) else None)"

fun sampleOptions :: "day_entry list \<Rightarrow> (nat \<times> nat) list \<Rightarrow> string list \<Rightarrow> (js_error + string list) option" where
  "sampleOptions plan [] options = (if length options < 4 then None else Some (Inr options))"
| "sampleOptions plan ((i, j) # draws) options =
     (if length options < 4 then
        (case nthOpt plan i of
           None \<Rightarrow> Some (Inl TypeError)
         | Some rd \<Rightarrow>
             (case nthOpt (words rd) j of
                None \<Rightarrow> Some (Inl TypeError)
              | Some w \<Rightarrow>
                  sampleOptions plan draws
                    (if ko w \<in> set options then options else options @ [ko w])))
      else Some (Inr options))"

text \<open>
  \<open>options.sort(() => Math.random() - 0.5)\<close>: the order that a sort with an inconsistent
  comparator leaves is up to the engine; it is an arrangement of the same elements, given
  here by the list of the positions it takes them from (a list that is no arrangement of
  the positions leaves the order as it is).
\<close>

definition arrange :: "nat list \<Rightarrow> 'a list \<Rightarrow> 'a list" where
  "arrange perm xs = (if sort perm = [0..<length xs] then map (\<lambda>i. xs ! i) perm else xs)"

record random_source =
  draws :: "(nat \<times> nat) list"
  perm :: "nat list"

text \<open>\<open>showNext\<close>, the closure inside \<open>buildQuizPage\<close>.\<close>

definition showNext :: "day_entry list \<Rightarrow> quiz_item list \<Rightarrow> random_source \<Rightarrow> app \<Rightarrow> (js_error + app) option" where
  "showNext plan items rnd st =
     (case container st of
        None \<Rightarrow> Some (Inr st)
      | Some v \<Rightarrow>
          if length items \<le> current st then Some (Inr (st\<lparr>container := Some QuizComplete\<rparr>))
          else
            (let item = items ! current st;
                 answer = qko item
             in case sampleOptions plan (draws rnd) [answer] of
                  None \<Rightarrow> None
                | Some (Inl e) \<Rightarrow> Some (Inl e)
                | Some (Inr options) \<Rightarrow>
                    Some (Inr (st\<lparr>container := Some (Question item (arrange (perm rnd) options))\<rparr>))))"

text \<open>
  The \<open>onclick\<close> of the button that shows the choice \<open>opt\<close> for \<open>item\<close>: \<open>logStudy\<close>,
  \<open>current++\<close>, \<open>showNext()\<close>.
\<close>

definition selectChoice :: "day_entry list \<Rightarrow> quiz_item list \<Rightarrow> quiz_item \<Rightarrow> string \<Rightarrow> int \<Rightarrow> random_source \<Rightarrow> app \<Rightarrow> (js_error + app) option" where
  "selectChoice plan items item opt now rnd st =
     (case logStudy (qid item) (qtype item) (if opt = qko item then ''correct'' else ''wrong'') now st of
        Inl e \<Rightarrow> Some (Inl e)
      | Inr st1 \<Rightarrow> showNext plan items rnd (st1\<lparr>current := current st1 + 1\<rparr>))"

text \<open>
  \<open>loadDailyPlan\<close>: \<open>fetch(...).then(res => res.json()).then(callback).catch(() => {
  console.error(...); callback([]) })\<close>. The fetched catalog is \<open>None\<close> when the request
  or the decoding fails. The \<open>catch\<close> follows \<open>then(callback)\<close>, so it also runs, and calls
  the callback with the empty catalog, when the callback itself throws.
\<close>

definition loadDailyPlan :: "day_entry list option \<Rightarrow> (day_entry list \<Rightarrow> (js_error + app) option) \<Rightarrow> (js_error + app) option" where
  "loadDailyPlan fetched callback =
     (case fetched of
        None \<Rightarrow> callback []
      | Some plan \<Rightarrow>
          (case callback plan of
             Some (Inl e) \<Rightarrow> callback []
           | r \<Rightarrow> r))"

definition buildQuizPage :: "day_entry list option \<Rightarrow> random_source \<Rightarrow> app \<Rightarrow> (js_error + app) option" where
  "buildQuizPage fetched rnd st =
     (case parseStored (quizItems st) of
        Inl e \<Rightarrow> Some (Inl e)
      | Inr itemIds \<Rightarrow>
          if itemIds = [] then
            (case container st of
               None \<Rightarrow> Some (Inr st)
             | Some v \<Rightarrow> Some (Inr (st\<lparr>container := Some NoItems\<rparr>)))
          else
            loadDailyPlan fetched
              (\<lambda>plan. showNext plan (generateQuizData itemIds plan) rnd (st\<lparr>current := 0\<rparr>)))"

text \<open>The event that the \<open>onclick\<close> handler hands to \<open>logStudy\<close>.\<close>

definition answerEvent :: "quiz_item \<Rightarrow> string \<Rightarrow> int \<Rightarrow> study_event" where
  "answerEvent item opt now =
     \<lparr>itemId = qid item, itemType = qtype item,
      outcome = (if opt = qko item then ''correct'' else ''wrong''), ts = now\<rparr>"

text \<open>
  The texts the loop can draw: the translations of all words of the catalog, and the text
  that one draw yields (\<open>None\<close> when the draw hits no word).
\<close>

definition wordTexts :: "day_entry list \<Rightarrow> string list" where
  "wordTexts plan = concat (map (\<lambda>day. map ko (words day)) plan)"

definition drawText :: "day_entry list \<Rightarrow> nat \<times> nat \<Rightarrow> string option" where
  "drawText plan d =
     (case nthOpt plan (fst d) of
        None \<Rightarrow> None
      | Some rd \<Rightarrow> map_option ko (nthOpt (words rd) (snd d)))"

text \<open>A catalog of two days with four words, for the examples.\<close>

definition plan4 :: "day_entry list" where
  "plan4 = [\<lparr>pattern = ''p1'', pattern_ko = ''k1'',
             words = [\<lparr>jp = ''neko'', ko = ''cat''\<rparr>, \<lparr>jp = ''inu'', ko = ''dog''\<rparr>]\<rparr>,
            \<lparr>pattern = ''p2'', pattern_ko = ''k2'',
             words = [\<lparr>jp = ''tori'', ko = ''bird''\<rparr>, \<lparr>jp = ''sakana'', ko = ''fish''\<rparr>]\<rparr>]"

text \<open>
  A log of three events, for the examples: one on 2025-01-09 and two on 2025-01-10, the
  first and the last millisecond of that day in Asia/Seoul.
\<close>

definition log2025 :: "study_event list" where
  "log2025 =
     [\<lparr>itemId = ''D1W2'', itemType = ''word'', outcome = ''view'', ts = 1736348400000\<rparr>,
      \<lparr>itemId = ''D1P'', itemType = ''pattern'', outcome = ''correct'', ts = 1736521199999\<rparr>,
      \<lparr>itemId = ''D1W1'', itemType = ''word'', outcome = ''wrong'', ts = 1736434800000\<rparr>]"

section \<open>Properties of the ranker\<close>

subsection \<open>Plain events\<close>

lemma proto_in_names: "''__proto__'' \<in> set protoNames"
  by (simp add: protoNames_def)

lemma plain_not_proto: "i \<notin> set protoNames \<Longrightarrow> i \<noteq> ''__proto__''"
  using proto_in_names by auto

lemma score_plain: "out \<notin> set protoNames \<Longrightarrow> score out = Num (weight out)"
  by (simp add: score_def weight_def)

lemma score_proto: "out \<in> set protoNames \<Longrightarrow> score out = NaN"
  by (auto simp: score_def protoNames_def)

lemma weight_nonneg: "0 \<le> weight out"
  by (simp add: weight_def)

lemma weight_unknown: "out \<notin> {''wrong'', ''correct'', ''view''} \<Longrightarrow> weight out = 0"
  by (simp add: weight_def)

lemma lookupMap_plain:
  assumes "proto m = None" "i \<notin> set protoNames"
  shows "lookupMap m i = (case map_of (own m) i of Some r \<Rightarrow> Entry r | None \<Rightarrow> Missing)"
  using assms plain_not_proto [OF assms(2)] by (simp add: lookupMap_def split: option.splits)

lemma rankStep_plain:
  assumes "proto m = None" "plainEvent e"
  shows "rankStep m e =
           m\<lparr>own := AList.update (itemId e)
                \<lparr>r_itemId = itemId e,
                 best = mathMax (case map_of (own m) (itemId e) of
                                   Some r \<Rightarrow> best r | None \<Rightarrow> Num 0)
                          (Num (weight (outcome e))),
                 lastTs = mathMax (case map_of (own m) (itemId e) of
                                     Some r \<Rightarrow> lastTs r | None \<Rightarrow> Num 0)
                            (Num (ts e))\<rparr>
                (own m)\<rparr>"
proof -
  have i: "itemId e \<notin> set protoNames" and o: "outcome e \<notin> set protoNames"
    using assms(2) by (simp_all add: plainEvent_def)
  show ?thesis
    using plain_not_proto [OF i]
    by (simp add: rankStep_def Let_def lookupMap_plain [OF assms(1) i] score_plain [OF o]
        split: option.splits)
qed

lemma accumulate_snoc: "accumulate (es @ [e]) = rankStep (accumulate es) e"
  by (simp add: accumulate_def)

lemma accumulate_Nil: "accumulate [] = \<lparr>own = [], proto = None\<rparr>"
  by (simp add: accumulate_def)

lemma distinct_rankStep: "distinct (map fst (own m)) \<Longrightarrow> distinct (map fst (own (rankStep m e)))"
  by (simp add: rankStep_def Let_def distinct_update)

lemma distinct_accumulate: "distinct (map fst (own (accumulate es)))"
  by (induction es rule: rev_induct) (simp_all add: accumulate_Nil accumulate_snoc distinct_rankStep)

lemma Max_insert0: "finite S \<Longrightarrow> max (0::int) (Max (insert x S)) = max (Max (insert 0 S)) x"
  by (cases "S = {}") (simp_all add: max.assoc max.commute max.left_commute)

lemma eventsOf_snoc:
  "eventsOf i (es @ [e]) = (if itemId e = i then eventsOf i es @ [e] else eventsOf i es)"
  by (simp add: eventsOf_def)

lemma eventsOf_empty: "i \<notin> itemId ` set es \<Longrightarrow> eventsOf i es = []"
  by (auto simp: eventsOf_def filter_empty_conv)

lemma entryOf_snoc_same:
  "itemId e = i \<Longrightarrow> entryOf i (es @ [e]) =
     \<lparr>r_itemId = i,
      best = mathMax (best (entryOf i es)) (Num (weight (outcome e))),
      lastTs = mathMax (lastTs (entryOf i es)) (Num (ts e))\<rparr>"
  by (simp add: entryOf_def eventsOf_snoc Max_insert0)

lemma entryOf_snoc_other: "itemId e \<noteq> i \<Longrightarrow> entryOf i (es @ [e]) = entryOf i es"
  by (simp add: entryOf_def eventsOf_snoc)

lemma entryOf_none:
  "i \<notin> itemId ` set es \<Longrightarrow> entryOf i es = \<lparr>r_itemId = i, best = Num 0, lastTs = Num 0\<rparr>"
  by (simp add: entryOf_def eventsOf_empty)

text \<open>
  After plain events no prototype has been installed, and the own keys of \<open>map\<close> are the
  item ids of the events, each with the accumulator \<open>entryOf\<close>.
\<close>

lemma accumulate_plain:
  assumes "\<forall>e\<in>set es. plainEvent e"
  shows "proto (accumulate es) = None \<and>
         map_of (own (accumulate es)) i
           = (if i \<in> itemId ` set es then Some (entryOf i es) else None)"
  using assms
proof (induction es rule: rev_induct)
  case Nil
  then show ?case by (simp add: accumulate_Nil)
next
  case (snoc e es)
  have pe: "plainEvent e" and pes: "\<forall>x\<in>set es. plainEvent x" using snoc.prems by simp_all
  note ih = snoc.IH [OF pes]
  have p: "proto (accumulate es) = None" using ih by simp
  note st = rankStep_plain [OF p pe]
  have pr: "proto (accumulate (es @ [e])) = None"
    by (simp add: accumulate_snoc st p)
  have mp: "map_of (own (accumulate (es @ [e]))) i
              = (if i \<in> itemId ` set (es @ [e]) then Some (entryOf i (es @ [e])) else None)"
  proof (cases "itemId e = i")
    case True
    show ?thesis
    proof (cases "i \<in> itemId ` set es")
      case in_es: True
      then show ?thesis using True ih
        by (simp add: accumulate_snoc st update_conv' entryOf_snoc_same)
    next
      case False
      then show ?thesis using True ih
        by (simp add: accumulate_snoc st update_conv' entryOf_snoc_same entryOf_none)
    qed
  next
    case False
    then show ?thesis using ih
      by (simp add: accumulate_snoc st update_conv' entryOf_snoc_other)
  qed
  from pr mp show ?case by simp
qed

lemma set_accumulate:
  assumes "\<forall>e\<in>set es. plainEvent e"
  shows "set (own (accumulate es)) = (\<lambda>i. (i, entryOf i es)) ` itemId ` set es"
proof (rule set_eqI)
  fix p :: "string \<times> rank_entry"
  obtain i r where p: "p = (i, r)" by (cases p)
  have "(i, r) \<in> set (own (accumulate es)) \<longleftrightarrow> map_of (own (accumulate es)) i = Some r"
    by (simp add: map_of_eq_Some_iff [OF distinct_accumulate])
  also have "\<dots> \<longleftrightarrow> i \<in> itemId ` set es \<and> r = entryOf i es"
    using accumulate_plain [OF assms, of i] by auto
  finally show "p \<in> set (own (accumulate es)) \<longleftrightarrow> p \<in> (\<lambda>i. (i, entryOf i es)) ` itemId ` set es"
    by (auto simp: p)
qed

lemma r_itemId_entryOf: "r_itemId (entryOf i es) = i"
  by (simp add: entryOf_def)

subsection \<open>The order of the values and the sort\<close>

lemma mset_objectValues: "mset (objectValues m) = mset (map snd (own m))"
proof -
  have "mset (sort_key (\<lambda>p. readNat (fst p)) (filter (\<lambda>p. isArrayIndex (fst p)) (own m))
              @ filter (\<lambda>p. \<not> isArrayIndex (fst p)) (own m)) = mset (own m)"
    by simp
  then have "image_mset snd (mset (sort_key (\<lambda>p. readNat (fst p))
                 (filter (\<lambda>p. isArrayIndex (fst p)) (own m))
              @ filter (\<lambda>p. \<not> isArrayIndex (fst p)) (own m))) = image_mset snd (mset (own m))"
    by (rule arg_cong)
  then show ?thesis by (simp only: objectValues_def mset_map)
qed

lemma set_objectValues: "set (objectValues m) = snd ` set (own m)"
  using mset_objectValues [of m, THEN arg_cong, of set_mset] by simp

lemma numeric_entryOf: "numeric (entryOf i es)"
  by (simp add: numeric_def entryOf_def)

lemma compareRank_le:
  assumes "numeric x" "numeric y"
  shows "sortValue (compareRank x y) \<le> 0 \<longleftrightarrow> rankKey x \<le> rankKey y"
proof -
  obtain bx lx where x: "best x = Num bx" "lastTs x = Num lx"
    using assms(1) by (cases "best x"; cases "lastTs x") (simp_all add: numeric_def)
  obtain by' ly where y: "best y = Num by'" "lastTs y = Num ly"
    using assms(2) by (cases "best y"; cases "lastTs y") (simp_all add: numeric_def)
  show ?thesis by (auto simp: compareRank_def orElse_def rankKey_def x y)
qed

lemma insertBy_insort:
  "numeric x \<Longrightarrow> \<forall>y\<in>set ys. numeric y \<Longrightarrow> insertBy compareRank x ys = insort_key rankKey x ys"
  by (induction ys) (simp_all add: compareRank_le)

lemma sortBy_sort_key:
  "\<forall>x\<in>set xs. numeric x \<Longrightarrow> sortBy compareRank xs = sort_key rankKey xs"
proof (induction xs)
  case Nil
  then show ?case by (simp add: sortBy_def)
next
  case (Cons x xs)
  have ih: "sortBy compareRank xs = sort_key rankKey xs" using Cons by simp
  have "sortBy compareRank (x # xs) = insertBy compareRank x (sortBy compareRank xs)"
    by (simp add: sortBy_def)
  also have "\<dots> = insort_key rankKey x (sort_key rankKey xs)"
    unfolding ih using Cons.prems by (intro insertBy_insort) simp_all
  finally show ?case by simp
qed

lemma numeric_values:
  assumes "\<forall>e\<in>set es. plainEvent e"
  shows "\<forall>r\<in>set (objectValues (accumulate es)). numeric r"
  by (auto simp: set_objectValues set_accumulate [OF assms] numeric_entryOf)

lemma ranked_sort_key:
  assumes "\<forall>e\<in>set es. plainEvent e"
  shows "ranked es = sort_key rankKey (objectValues (accumulate es))"
  unfolding ranked_def using numeric_values [OF assms] by (rule sortBy_sort_key)

lemma mset_ranked:
  "\<forall>e\<in>set es. plainEvent e \<Longrightarrow> mset (ranked es) = mset (map snd (own (accumulate es)))"
  by (simp add: ranked_sort_key mset_objectValues)

lemma set_ranked:
  assumes "\<forall>e\<in>set es. plainEvent e"
  shows "set (ranked es) = (\<lambda>i. entryOf i es) ` itemId ` set es"
proof -
  have "set (ranked es) = snd ` set (own (accumulate es))"
    by (simp add: ranked_sort_key [OF assms] set_objectValues)
  then show ?thesis by (simp add: set_accumulate [OF assms] image_image)
qed

lemma ids_accumulate:
  assumes "\<forall>e\<in>set es. plainEvent e"
  shows "map r_itemId (map snd (own (accumulate es))) = map fst (own (accumulate es))"
proof -
  have "\<And>p. p \<in> set (own (accumulate es)) \<Longrightarrow> r_itemId (snd p) = fst p"
    by (auto simp: set_accumulate [OF assms] r_itemId_entryOf)
  then show ?thesis by simp
qed

lemma mset_rankEvents:
  assumes "\<forall>e\<in>set es. plainEvent e"
  shows "mset (rankEvents es) = mset (map fst (own (accumulate es)))"
proof -
  have "mset (rankEvents es) = image_mset r_itemId (mset (ranked es))"
    by (simp add: rankEvents_def)
  also have "\<dots> = mset (map r_itemId (map snd (own (accumulate es))))"
    by (simp only: mset_ranked [OF assms] mset_map)
  finally show ?thesis by (simp only: ids_accumulate [OF assms])
qed

lemma distinct_rankEvents: "\<forall>e\<in>set es. plainEvent e \<Longrightarrow> distinct (rankEvents es)"
  using mset_eq_imp_distinct_iff [OF mset_rankEvents] distinct_accumulate by blast

lemma set_rankEvents: "\<forall>e\<in>set es. plainEvent e \<Longrightarrow> set (rankEvents es) = itemId ` set es"
  by (simp add: rankEvents_def set_ranked image_image r_itemId_entryOf)

lemma rankKey_le: "numeric a \<Longrightarrow> numeric b \<Longrightarrow> rankKey a \<le> rankKey b \<longleftrightarrow> rankOrder a b"
  by (cases "best a"; cases "lastTs a"; cases "best b"; cases "lastTs b")
    (auto simp: rankKey_def rankOrder_def numeric_def)

lemma sorted_ranked:
  assumes "\<forall>e\<in>set es. plainEvent e"
  shows "sorted_wrt rankOrder (ranked es)"
proof -
  have n: "\<forall>r\<in>set (ranked es). numeric r"
    by (auto simp: set_ranked [OF assms] numeric_entryOf)
  have "sorted (map rankKey (ranked es))"
    by (simp add: ranked_sort_key [OF assms])
  then have s: "sorted_wrt (\<lambda>a b. rankKey a \<le> rankKey b) (ranked es)"
    by (simp add: sorted_map)
  show ?thesis
  proof (rule sorted_wrt_mono_rel [OF _ s])
    fix a b
    assume "a \<in> set (ranked es)" "b \<in> set (ranked es)" "rankKey a \<le> rankKey b"
    then show "rankOrder a b" using n rankKey_le [of a b] by blast
  qed
qed

lemma eventsOf_nonempty: "i \<in> itemId ` set es \<Longrightarrow> eventsOf i es \<noteq> []"
  by (auto simp: eventsOf_def filter_empty_conv)

lemma best_entryOf:
  assumes "i \<in> itemId ` set es"
  shows "best (entryOf i es) = Num (Max ((\<lambda>e. weight (outcome e)) ` set (eventsOf i es)))"
proof -
  let ?S = "(\<lambda>e. weight (outcome e)) ` set (eventsOf i es)"
  have ne: "?S \<noteq> {}" using eventsOf_nonempty [OF assms] by simp
  have fin: "finite ?S" by simp
  have "Max ?S \<in> ?S" using fin ne by (rule Max_in)
  then have "0 \<le> Max ?S" using weight_nonneg by auto
  then show ?thesis using ne by (simp add: entryOf_def)
qed

lemma lastTs_entryOf:
  assumes "i \<in> itemId ` set es"
  shows "lastTs (entryOf i es) = Num (max 0 (Max (ts ` set (eventsOf i es))))"
  using eventsOf_nonempty [OF assms] by (simp add: entryOf_def)

lemma rankEvents_Nil: "rankEvents [] = []"
  by (simp add: rankEvents_def ranked_def accumulate_def sortBy_def objectValues_def)

lemma best_unknown:
  assumes "\<forall>e\<in>set (eventsOf i es). outcome e \<notin> {''wrong'', ''correct'', ''view''}"
  shows "best (entryOf i es) = Num 0"
proof -
  have "(\<lambda>e. weight (outcome e)) ` set (eventsOf i es) \<subseteq> {0}"
    using assms weight_unknown by auto
  then have "insert 0 ((\<lambda>e. weight (outcome e)) ` set (eventsOf i es)) = {0}" by auto
  then have "Max (insert 0 ((\<lambda>e. weight (outcome e)) ` set (eventsOf i es))) = 0"
    by (simp only: Max_singleton)
  then show ?thesis by (simp add: entryOf_def)
qed

text \<open>The accumulators and the sorted keys depend on the set of events only.\<close>

lemma entryOf_cong: "set es = set es' \<Longrightarrow> entryOf i es = entryOf i es'"
  by (simp add: entryOf_def eventsOf_def)

lemma set_ranked_cong:
  assumes "\<forall>e\<in>set es. plainEvent e" "set es = set es'"
  shows "set (ranked es) = set (ranked es')"
proof -
  have p: "\<forall>e\<in>set es'. plainEvent e" using assms by simp
  show ?thesis
    by (simp add: set_ranked [OF assms(1)] set_ranked [OF p] assms(2) entryOf_cong [OF assms(2)])
qed

lemma distinct_entries:
  assumes "\<forall>e\<in>set es. plainEvent e"
  shows "distinct (map snd (own (accumulate es)))"
proof -
  have "distinct (map r_itemId (map snd (own (accumulate es))))"
    by (simp only: ids_accumulate [OF assms] distinct_accumulate)
  then show ?thesis by (simp only: distinct_map)
qed

lemma distinct_ranked: "\<forall>e\<in>set es. plainEvent e \<Longrightarrow> distinct (ranked es)"
  using mset_eq_imp_distinct_iff [OF mset_ranked] distinct_entries by blast

lemma mset_ranked_cong:
  assumes "\<forall>e\<in>set es. plainEvent e" "set es = set es'"
  shows "mset (ranked es) = mset (ranked es')"
proof -
  have p: "\<forall>e\<in>set es'. plainEvent e" using assms by simp
  show ?thesis
    using set_eq_iff_mset_eq_distinct [OF distinct_ranked [OF assms(1)] distinct_ranked [OF p]]
      set_ranked_cong [OF assms] by simp
qed

lemma sorted_mset_unique:
  fixes xs ys :: "'a::linorder list"
  assumes "sorted xs" "sorted ys" "mset xs = mset ys"
  shows "xs = ys"
proof -
  have "sort ys = xs" using assms(3) assms(1) by (rule properties_for_sort)
  moreover have "sort ys = ys" using assms(2) by (rule sort_key_id_if_sorted [of "\<lambda>x. x", simplified])
  ultimately show ?thesis by simp
qed

lemma keys_ranked_cong:
  assumes "\<forall>e\<in>set es. plainEvent e" "set es = set es'"
  shows "map rankKey (ranked es) = map rankKey (ranked es')"
proof (rule sorted_mset_unique)
  have p: "\<forall>e\<in>set es'. plainEvent e" using assms by simp
  show "sorted (map rankKey (ranked es))" by (simp add: ranked_sort_key [OF assms(1)])
  show "sorted (map rankKey (ranked es'))" by (simp add: ranked_sort_key [OF p])
  show "mset (map rankKey (ranked es)) = mset (map rankKey (ranked es'))"
    using mset_ranked_cong [OF assms] by (simp only: mset_map)
qed

lemma entry_in_ranked:
  assumes "\<forall>e\<in>set es. plainEvent e" "r \<in> set (ranked es)"
  shows "r_itemId r \<in> itemId ` set es \<and> r = entryOf (r_itemId r) es"
  using assms(2) by (auto simp: set_ranked [OF assms(1)] r_itemId_entryOf)

text \<open>The definitions that evaluate the ranker on a concrete event list.\<close>

lemmas rank_eval = rankEvents_def ranked_def accumulate_def sortBy_def rankStep_def
  lookupMap_def objectValues_def isArrayIndex_def readNat_def digitVal_def
  showNat.simps digitChar_def compareRank_def orElse_def score_def protoNames_def Let_def

text \<open>
  Item ids that are array indices come first in \<open>Object.values\<close>, in numeric order; it
  shows among items that tie.
\<close>

lemma index_ids_first:
  "rankEvents [\<lparr>itemId = ''D1W1'', itemType = ''word'', outcome = ''wrong'', ts = 5\<rparr>,
               \<lparr>itemId = ''10'', itemType = ''word'', outcome = ''wrong'', ts = 5\<rparr>,
               \<lparr>itemId = ''2'', itemType = ''word'', outcome = ''wrong'', ts = 5\<rparr>]
     = [''2'', ''10'', ''D1W1'']"
  by (simp add: rank_eval)

subsection \<open>Empty input and unknown outcomes\<close>

lemma unknown_outcome_step:
  assumes "\<forall>x\<in>set es. plainEvent x" and "plainEvent e"
    and "outcome e \<notin> {''wrong'', ''correct'', ''view''}"
  shows "score (outcome e) = Num 0 \<and>
         proto (accumulate (es @ [e])) = None \<and>
         own (accumulate (es @ [e])) =
           AList.update (itemId e)
             \<lparr>r_itemId = itemId e,
              best = (case map_of (own (accumulate es)) (itemId e) of
                        Some r \<Rightarrow> best r | None \<Rightarrow> Num 0),
              lastTs = mathMax (case map_of (own (accumulate es)) (itemId e) of
                                  Some r \<Rightarrow> lastTs r | None \<Rightarrow> Num 0)
                         (Num (ts e))\<rparr>
             (own (accumulate es)) \<and>
         (map_of (own (accumulate es)) (itemId e) = None \<longleftrightarrow> itemId e \<notin> itemId ` set es) \<and>
         distinct (rankEvents (es @ [e])) \<and>
         set (rankEvents (es @ [e])) = insert (itemId e) (itemId ` set es) \<and>
         (\<exists>r\<in>set (ranked (es @ [e])). r_itemId r = itemId e \<and>
            best r = Num (Max (insert 0 ((\<lambda>x. weight (outcome x)) ` set (eventsOf (itemId e) es)))) \<and>
            lastTs r = Num (Max (insert 0 (ts ` set (eventsOf (itemId e) (es @ [e])))))) \<and>
         ((\<forall>x\<in>set (eventsOf (itemId e) es). outcome x \<notin> {''wrong'', ''correct'', ''view''}) \<longrightarrow>
            (\<exists>r\<in>set (ranked (es @ [e])). r_itemId r = itemId e \<and> best r = Num 0))"
proof -
  let ?i = "itemId e"
  have pall: "\<forall>x\<in>set (es @ [e]). plainEvent x" using assms(1,2) by simp
  have o: "outcome e \<notin> set protoNames" using assms(2) by (simp add: plainEvent_def)
  have w: "weight (outcome e) = 0" using assms(3) by (rule weight_unknown)
  have s: "score (outcome e) = Num 0" using score_plain [OF o] w by simp
  note acc = accumulate_plain [OF assms(1), of ?i]
  have p: "proto (accumulate es) = None" using acc by simp
  have keep: "mathMax (case map_of (own (accumulate es)) ?i of Some r \<Rightarrow> best r | None \<Rightarrow> Num 0)
                (Num (weight (outcome e)))
              = (case map_of (own (accumulate es)) ?i of Some r \<Rightarrow> best r | None \<Rightarrow> Num 0)"
    using acc by (simp add: w entryOf_def)
  have step: "accumulate (es @ [e]) =
      (accumulate es)\<lparr>own := AList.update ?i
         \<lparr>r_itemId = ?i,
          best = (case map_of (own (accumulate es)) ?i of Some r \<Rightarrow> best r | None \<Rightarrow> Num 0),
          lastTs = mathMax (case map_of (own (accumulate es)) ?i of
                              Some r \<Rightarrow> lastTs r | None \<Rightarrow> Num 0) (Num (ts e))\<rparr>
         (own (accumulate es))\<rparr>"
    unfolding accumulate_snoc rankStep_plain [OF p assms(2)] keep by (rule refl)
  have c3: "proto (accumulate (es @ [e])) = None"
    using accumulate_plain [OF pall] by simp
  have c4: "own (accumulate (es @ [e])) =
           AList.update ?i
             \<lparr>r_itemId = ?i,
              best = (case map_of (own (accumulate es)) ?i of Some r \<Rightarrow> best r | None \<Rightarrow> Num 0),
              lastTs = mathMax (case map_of (own (accumulate es)) ?i of
                                  Some r \<Rightarrow> lastTs r | None \<Rightarrow> Num 0) (Num (ts e))\<rparr>
             (own (accumulate es))"
    by (subst step) simp
  have c5: "map_of (own (accumulate es)) ?i = None \<longleftrightarrow> ?i \<notin> itemId ` set es"
    using acc by simp
  have c6: "distinct (rankEvents (es @ [e]))" using pall by (rule distinct_rankEvents)
  have c7: "set (rankEvents (es @ [e])) = insert ?i (itemId ` set es)"
    using set_rankEvents [OF pall] by simp
  have mem: "entryOf ?i (es @ [e]) \<in> set (ranked (es @ [e]))"
    by (simp add: set_ranked [OF pall])
  have b: "best (entryOf ?i (es @ [e]))
             = Num (Max (insert 0 ((\<lambda>x. weight (outcome x)) ` set (eventsOf ?i es))))"
    by (simp add: entryOf_def eventsOf_snoc w)
  have l: "lastTs (entryOf ?i (es @ [e]))
             = Num (Max (insert 0 (ts ` set (eventsOf ?i (es @ [e])))))"
    by (simp add: entryOf_def)
  have c8: "\<exists>r\<in>set (ranked (es @ [e])). r_itemId r = ?i \<and>
            best r = Num (Max (insert 0 ((\<lambda>x. weight (outcome x)) ` set (eventsOf ?i es)))) \<and>
            lastTs r = Num (Max (insert 0 (ts ` set (eventsOf ?i (es @ [e])))))"
    using mem b l r_itemId_entryOf [of ?i "es @ [e]"] by blast
  have c9: "\<exists>r\<in>set (ranked (es @ [e])). r_itemId r = ?i \<and> best r = Num 0"
    if u: "\<forall>x\<in>set (eventsOf ?i es). outcome x \<notin> {''wrong'', ''correct'', ''view''}"
  proof -
    have "\<forall>x\<in>set (eventsOf ?i (es @ [e])). outcome x \<notin> {''wrong'', ''correct'', ''view''}"
      using u assms(3) by (simp add: eventsOf_snoc)
    then have "best (entryOf ?i (es @ [e])) = Num 0" by (rule best_unknown)
    then show ?thesis using mem r_itemId_entryOf [of ?i "es @ [e]"] by blast
  qed
  from s c3 c4 c5 c6 c7 c8 c9 show ?thesis by blast
qed


text \<open>
  Claim C9 says that every event whose outcome is not \<open>wrong\<close>, \<open>correct\<close> or \<open>view\<close>
  creates or updates an accumulator with weight 0, so that its item is in the output
  with \<open>best = 0\<close>. Two kinds of strings behave otherwise, because \<open>score\<close> and \<open>map\<close>
  are plain objects. The outcome \<open>constructor\<close> reads the member of that name of
  \<open>Object.prototype\<close>, and \<open>best\<close> becomes \<open>NaN\<close>, not 0. An event whose item id is
  \<open>__proto__\<close> creates no key at all, and its item is dropped from the output; what it
  installs as prototype of \<open>map\<close> is then read by a later event with the item id
  \<open>itemId\<close>, whose accumulator gets \<open>NaN\<close> in both fields.
\<close>

theorem unknown_outcome_prototype_member:
  "score ''constructor'' = NaN \<and>
   ranked [\<lparr>itemId = ''itemX'', itemType = ''word'', outcome = ''constructor'', ts = 7\<rparr>]
     = [\<lparr>r_itemId = ''itemX'', best = NaN, lastTs = Num 7\<rparr>] \<and>
   rankEvents [\<lparr>itemId = ''__proto__'', itemType = ''word'', outcome = ''skipped'', ts = 7\<rparr>]
     = [] \<and>
   ranked [\<lparr>itemId = ''__proto__'', itemType = ''word'', outcome = ''skipped'', ts = 1\<rparr>,
           \<lparr>itemId = ''itemId'', itemType = ''word'', outcome = ''skipped'', ts = 7\<rparr>]
     = [\<lparr>r_itemId = ''itemId'', best = NaN, lastTs = NaN\<rparr>]"
  by (simp add: rank_eval)

text \<open>
  Claim C9, amended. Ranking the empty event sequence gives the empty sequence. Let the
  events be plain, that is, let no item id and no outcome name a member of
  \<open>Object.prototype\<close>, and let \<open>e\<close> be such an event whose outcome is not \<open>wrong\<close>,
  \<open>correct\<close> or \<open>view\<close>. Then \<open>e\<close> weighs 0. Run after the events \<open>es\<close>, it updates the
  accumulator of its item, leaving \<open>best\<close> as it is and raising \<open>lastTs\<close> to its
  timestamp, or creates the accumulator with \<open>best = 0\<close> when the item has none; the
  other accumulators stay as they are. The item of \<open>e\<close> is in the output, once, with
  the \<open>best\<close> it had before \<open>e\<close>, which is 0 when the item is new or has only events
  with such outcomes.
\<close>

theorem rank_empty_and_unknown:
  "rankEvents [] = [] \<and>
   ((\<forall>x\<in>set es. plainEvent x) \<and> plainEvent e \<and>
    outcome e \<notin> {''wrong'', ''correct'', ''view''} \<longrightarrow>
      score (outcome e) = Num 0 \<and>
      proto (accumulate (es @ [e])) = None \<and>
      own (accumulate (es @ [e])) =
        AList.update (itemId e)
          \<lparr>r_itemId = itemId e,
           best = (case map_of (own (accumulate es)) (itemId e) of
                     Some r \<Rightarrow> best r | None \<Rightarrow> Num 0),
           lastTs = mathMax (case map_of (own (accumulate es)) (itemId e) of
                               Some r \<Rightarrow> lastTs r | None \<Rightarrow> Num 0)
                      (Num (ts e))\<rparr>
          (own (accumulate es)) \<and>
      (map_of (own (accumulate es)) (itemId e) = None \<longleftrightarrow> itemId e \<notin> itemId ` set es) \<and>
      distinct (rankEvents (es @ [e])) \<and>
      set (rankEvents (es @ [e])) = insert (itemId e) (itemId ` set es) \<and>
      (\<exists>r\<in>set (ranked (es @ [e])). r_itemId r = itemId e \<and>
         best r = Num (Max (insert 0 ((\<lambda>x. weight (outcome x)) ` set (eventsOf (itemId e) es)))) \<and>
         lastTs r = Num (Max (insert 0 (ts ` set (eventsOf (itemId e) (es @ [e])))))) \<and>
      ((\<forall>x\<in>set (eventsOf (itemId e) es). outcome x \<notin> {''wrong'', ''correct'', ''view''}) \<longrightarrow>
         (\<exists>r\<in>set (ranked (es @ [e])). r_itemId r = itemId e \<and> best r = Num 0)))"
proof (rule conjI)
  show "rankEvents [] = []" by (rule rankEvents_Nil)
next
  show "(\<forall>x\<in>set es. plainEvent x) \<and> plainEvent e \<and>
    outcome e \<notin> {''wrong'', ''correct'', ''view''} \<longrightarrow>
      score (outcome e) = Num 0 \<and>
      proto (accumulate (es @ [e])) = None \<and>
      own (accumulate (es @ [e])) =
        AList.update (itemId e)
          \<lparr>r_itemId = itemId e,
           best = (case map_of (own (accumulate es)) (itemId e) of
                     Some r \<Rightarrow> best r | None \<Rightarrow> Num 0),
           lastTs = mathMax (case map_of (own (accumulate es)) (itemId e) of
                               Some r \<Rightarrow> lastTs r | None \<Rightarrow> Num 0)
                      (Num (ts e))\<rparr>
          (own (accumulate es)) \<and>
      (map_of (own (accumulate es)) (itemId e) = None \<longleftrightarrow> itemId e \<notin> itemId ` set es) \<and>
      distinct (rankEvents (es @ [e])) \<and>
      set (rankEvents (es @ [e])) = insert (itemId e) (itemId ` set es) \<and>
      (\<exists>r\<in>set (ranked (es @ [e])). r_itemId r = itemId e \<and>
         best r = Num (Max (insert 0 ((\<lambda>x. weight (outcome x)) ` set (eventsOf (itemId e) es)))) \<and>
         lastTs r = Num (Max (insert 0 (ts ` set (eventsOf (itemId e) (es @ [e])))))) \<and>
      ((\<forall>x\<in>set (eventsOf (itemId e) es). outcome x \<notin> {''wrong'', ''correct'', ''view''}) \<longrightarrow>
         (\<exists>r\<in>set (ranked (es @ [e])). r_itemId r = itemId e \<and> best r = Num 0))"
  proof (rule impI)
    assume h: "(\<forall>x\<in>set es. plainEvent x) \<and> plainEvent e \<and>
      outcome e \<notin> {''wrong'', ''correct'', ''view''}"
    then have "\<forall>x\<in>set es. plainEvent x" "plainEvent e"
      "outcome e \<notin> {''wrong'', ''correct'', ''view''}"
      by simp_all
    then show "score (outcome e) = Num 0 \<and>
      proto (accumulate (es @ [e])) = None \<and>
      own (accumulate (es @ [e])) =
        AList.update (itemId e)
          \<lparr>r_itemId = itemId e,
           best = (case map_of (own (accumulate es)) (itemId e) of
                     Some r \<Rightarrow> best r | None \<Rightarrow> Num 0),
           lastTs = mathMax (case map_of (own (accumulate es)) (itemId e) of
                               Some r \<Rightarrow> lastTs r | None \<Rightarrow> Num 0)
                      (Num (ts e))\<rparr>
          (own (accumulate es)) \<and>
      (map_of (own (accumulate es)) (itemId e) = None \<longleftrightarrow> itemId e \<notin> itemId ` set es) \<and>
      distinct (rankEvents (es @ [e])) \<and>
      set (rankEvents (es @ [e])) = insert (itemId e) (itemId ` set es) \<and>
      (\<exists>r\<in>set (ranked (es @ [e])). r_itemId r = itemId e \<and>
         best r = Num (Max (insert 0 ((\<lambda>x. weight (outcome x)) ` set (eventsOf (itemId e) es)))) \<and>
         lastTs r = Num (Max (insert 0 (ts ` set (eventsOf (itemId e) (es @ [e])))))) \<and>
      ((\<forall>x\<in>set (eventsOf (itemId e) es). outcome x \<notin> {''wrong'', ''correct'', ''view''}) \<longrightarrow>
         (\<exists>r\<in>set (ranked (es @ [e])). r_itemId r = itemId e \<and> best r = Num 0))"
      by (rule unknown_outcome_step)
  qed
qed

theorem rank_empty_and_unknown_witness:
  "ranked [\<lparr>itemId = ''itemX'', itemType = ''word'', outcome = ''wrong'', ts = 3\<rparr>,
           \<lparr>itemId = ''itemX'', itemType = ''word'', outcome = ''skipped'', ts = 7\<rparr>]
     = [\<lparr>r_itemId = ''itemX'', best = Num 3, lastTs = Num 7\<rparr>] \<and>
   rankEvents [\<lparr>itemId = ''itemX'', itemType = ''word'', outcome = ''wrong'', ts = 3\<rparr>,
               \<lparr>itemId = ''itemX'', itemType = ''word'', outcome = ''skipped'', ts = 7\<rparr>]
     = [''itemX''] \<and>
   score ''skipped'' = Num 0 \<and>
   own (accumulate [\<lparr>itemId = ''itemX'', itemType = ''word'', outcome = ''wrong'', ts = 3\<rparr>,
                    \<lparr>itemId = ''itemX'', itemType = ''word'', outcome = ''skipped'', ts = 7\<rparr>])
     = AList.update ''itemX'' \<lparr>r_itemId = ''itemX'', best = Num 3, lastTs = Num 7\<rparr>
         (own (accumulate [\<lparr>itemId = ''itemX'', itemType = ''word'', outcome = ''wrong'', ts = 3\<rparr>])) \<and>
   ranked [\<lparr>itemId = ''itemY'', itemType = ''word'', outcome = ''skipped'', ts = 7\<rparr>]
     = [\<lparr>r_itemId = ''itemY'', best = Num 0, lastTs = Num 7\<rparr>] \<and>
   rankEvents [\<lparr>itemId = ''itemY'', itemType = ''word'', outcome = ''skipped'', ts = 7\<rparr>]
     = [''itemY'']"
  using rank_empty_and_unknown
    [of "[\<lparr>itemId = ''itemX'', itemType = ''word'', outcome = ''wrong'', ts = 3\<rparr>]"
        "\<lparr>itemId = ''itemX'', itemType = ''word'', outcome = ''skipped'', ts = 7\<rparr>"]
    rank_empty_and_unknown
    [of "[]" "\<lparr>itemId = ''itemY'', itemType = ''word'', outcome = ''skipped'', ts = 7\<rparr>"]
  by (simp add: rank_eval plainEvent_def)

subsection \<open>Order of the input events\<close>

text \<open>
  Claim C1 says that the output of the ranker is the same for every permutation of the
  events. The code does not do that. Two items with the same \<open>best\<close> and the same
  \<open>lastTs\<close> compare equal, the sort is stable, and they come out in the order in which
  their ids first occur in the input: two items answered wrong in the same millisecond
  show it. The same happens to two items with the same \<open>lastTs\<close> when the \<open>best\<close> of one
  is \<open>NaN\<close>, as the outcome \<open>constructor\<close> makes it. And an event with the item id
  \<open>__proto__\<close> changes what the events after it read from \<open>map\<close>, but not what the
  events before it have read: after it the id \<open>itemId\<close> finds the string of that name
  in the installed object and gets \<open>NaN\<close> for both fields.
\<close>

theorem rank_order_dependent:
  "mset [\<lparr>itemId = ''itemB'', itemType = ''word'', outcome = ''wrong'', ts = 5\<rparr>,
         \<lparr>itemId = ''itemA'', itemType = ''word'', outcome = ''wrong'', ts = 5\<rparr>]
     = mset [\<lparr>itemId = ''itemA'', itemType = ''word'', outcome = ''wrong'', ts = 5\<rparr>,
             \<lparr>itemId = ''itemB'', itemType = ''word'', outcome = ''wrong'', ts = 5\<rparr>] \<and>
   rankEvents [\<lparr>itemId = ''itemA'', itemType = ''word'', outcome = ''wrong'', ts = 5\<rparr>,
               \<lparr>itemId = ''itemB'', itemType = ''word'', outcome = ''wrong'', ts = 5\<rparr>]
     = [''itemA'', ''itemB''] \<and>
   rankEvents [\<lparr>itemId = ''itemB'', itemType = ''word'', outcome = ''wrong'', ts = 5\<rparr>,
               \<lparr>itemId = ''itemA'', itemType = ''word'', outcome = ''wrong'', ts = 5\<rparr>]
     = [''itemB'', ''itemA''] \<and>
   rankEvents [\<lparr>itemId = ''itemA'', itemType = ''word'', outcome = ''constructor'', ts = 5\<rparr>,
               \<lparr>itemId = ''itemB'', itemType = ''word'', outcome = ''wrong'', ts = 5\<rparr>]
     = [''itemA'', ''itemB''] \<and>
   rankEvents [\<lparr>itemId = ''itemB'', itemType = ''word'', outcome = ''wrong'', ts = 5\<rparr>,
               \<lparr>itemId = ''itemA'', itemType = ''word'', outcome = ''constructor'', ts = 5\<rparr>]
     = [''itemB'', ''itemA''] \<and>
   rankEvents [\<lparr>itemId = ''itemId'', itemType = ''word'', outcome = ''view'', ts = 1\<rparr>,
               \<lparr>itemId = ''itemB'', itemType = ''word'', outcome = ''wrong'', ts = 5\<rparr>,
               \<lparr>itemId = ''__proto__'', itemType = ''word'', outcome = ''view'', ts = 2\<rparr>]
     = [''itemB'', ''itemId''] \<and>
   rankEvents [\<lparr>itemId = ''__proto__'', itemType = ''word'', outcome = ''view'', ts = 2\<rparr>,
               \<lparr>itemId = ''itemId'', itemType = ''word'', outcome = ''view'', ts = 1\<rparr>,
               \<lparr>itemId = ''itemB'', itemType = ''word'', outcome = ''wrong'', ts = 5\<rparr>]
     = [''itemId'', ''itemB'']"
  by (simp add: rank_eval add_mset_commute)

text \<open>
  Claim C1, amended. Let the events be plain: no item id and no outcome names a member
  of \<open>Object.prototype\<close>. Then for every permutation of the events the accumulators are
  the same, the output holds the same item ids, each once, and the sequence of sort keys
  (\<open>best\<close> descending, \<open>lastTs\<close> ascending) along the output is the same; when no two
  items have the same \<open>best\<close> and the same \<open>lastTs\<close>, the output is identical.
\<close>

theorem rank_permutation:
  assumes "mset es = mset es'" and "\<forall>e\<in>set es. plainEvent e"
  shows "set (ranked es) = set (ranked es') \<and>
         mset (rankEvents es) = mset (rankEvents es') \<and>
         map rankKey (ranked es) = map rankKey (ranked es') \<and>
         (inj_on rankKey (set (ranked es)) \<longrightarrow> rankEvents es = rankEvents es')"
proof -
  have s: "set es = set es'" using assms(1) by (rule mset_eq_setD)
  note p = assms(2)
  have a: "set (ranked es) = set (ranked es')" using p s by (rule set_ranked_cong)
  have "mset (map r_itemId (ranked es)) = mset (map r_itemId (ranked es'))"
    using mset_ranked_cong [OF p s] by (simp only: mset_map)
  then have b: "mset (rankEvents es) = mset (rankEvents es')"
    by (simp only: rankEvents_def)
  have c: "map rankKey (ranked es) = map rankKey (ranked es')"
    using p s by (rule keys_ranked_cong)
  have d: "rankEvents es = rankEvents es'" if inj: "inj_on rankKey (set (ranked es))"
  proof -
    have "inj_on rankKey (set (ranked es) \<union> set (ranked es'))" using inj a by simp
    then have "ranked es = ranked es'" using c by (simp only: inj_on_map_eq_map)
    then show ?thesis by (simp only: rankEvents_def)
  qed
  from a b c d show ?thesis by blast
qed

theorem rank_permutation_witness:
  "mset [\<lparr>itemId = ''itemA'', itemType = ''word'', outcome = ''wrong'', ts = 10\<rparr>,
         \<lparr>itemId = ''itemB'', itemType = ''word'', outcome = ''wrong'', ts = 5\<rparr>]
     = mset [\<lparr>itemId = ''itemB'', itemType = ''word'', outcome = ''wrong'', ts = 5\<rparr>,
             \<lparr>itemId = ''itemA'', itemType = ''word'', outcome = ''wrong'', ts = 10\<rparr>] \<and>
   plainEvent \<lparr>itemId = ''itemA'', itemType = ''word'', outcome = ''wrong'', ts = 10\<rparr> \<and>
   plainEvent \<lparr>itemId = ''itemB'', itemType = ''word'', outcome = ''wrong'', ts = 5\<rparr> \<and>
   inj_on rankKey (set (ranked
        [\<lparr>itemId = ''itemA'', itemType = ''word'', outcome = ''wrong'', ts = 10\<rparr>,
         \<lparr>itemId = ''itemB'', itemType = ''word'', outcome = ''wrong'', ts = 5\<rparr>])) \<and>
   rankEvents [\<lparr>itemId = ''itemA'', itemType = ''word'', outcome = ''wrong'', ts = 10\<rparr>,
         \<lparr>itemId = ''itemB'', itemType = ''word'', outcome = ''wrong'', ts = 5\<rparr>]
     = rankEvents [\<lparr>itemId = ''itemB'', itemType = ''word'', outcome = ''wrong'', ts = 5\<rparr>,
             \<lparr>itemId = ''itemA'', itemType = ''word'', outcome = ''wrong'', ts = 10\<rparr>]"
proof -
  let ?a = "\<lparr>itemId = ''itemA'', itemType = ''word'', outcome = ''wrong'', ts = 10\<rparr>"
  let ?b = "\<lparr>itemId = ''itemB'', itemType = ''word'', outcome = ''wrong'', ts = 5\<rparr>"
  have m: "mset [?a, ?b] = mset [?b, ?a]" by (simp add: add_mset_commute)
  have pa: "plainEvent ?a" and pb: "plainEvent ?b"
    by (simp_all add: plainEvent_def protoNames_def)
  then have p: "\<forall>e\<in>set [?a, ?b]. plainEvent e" by simp
  have i: "inj_on rankKey (set (ranked [?a, ?b]))"
    by (simp add: rank_eval rankKey_def)
  from rank_permutation [OF m p] i m pa pb show ?thesis by blast
qed

subsection \<open>Severity weights, accumulators and sort order\<close>

text \<open>
  Claim C2 says that \<open>lastTs\<close> is the maximum of the timestamps of the item's events.
  The accumulator starts from \<open>lastTs: 0\<close>, so it is the maximum of 0 and those
  timestamps: for two items answered wrong before the epoch both accumulators hold 0, the
  items tie, and the item with the later timestamp is listed first although the other
  one is older. The claim also gives weight 0 to every outcome outside its table and an
  accumulator to every item id. An outcome that names a member of \<open>Object.prototype\<close>,
  such as \<open>toString\<close>, makes \<open>best\<close> \<open>NaN\<close>, and the item id \<open>__proto__\<close> gets no
  accumulator and is not in the output.
\<close>

theorem rank_negative_timestamps:
  "rankEvents [\<lparr>itemId = ''itemA'', itemType = ''word'', outcome = ''wrong'', ts = - 5\<rparr>,
               \<lparr>itemId = ''itemB'', itemType = ''word'', outcome = ''wrong'', ts = - 10\<rparr>]
     = [''itemA'', ''itemB''] \<and>
   ranked [\<lparr>itemId = ''itemA'', itemType = ''word'', outcome = ''wrong'', ts = - 5\<rparr>,
           \<lparr>itemId = ''itemB'', itemType = ''word'', outcome = ''wrong'', ts = - 10\<rparr>]
     = [\<lparr>r_itemId = ''itemA'', best = Num 3, lastTs = Num 0\<rparr>,
        \<lparr>r_itemId = ''itemB'', best = Num 3, lastTs = Num 0\<rparr>] \<and>
   Max (ts ` set (eventsOf ''itemA''
          [\<lparr>itemId = ''itemA'', itemType = ''word'', outcome = ''wrong'', ts = - 5\<rparr>,
           \<lparr>itemId = ''itemB'', itemType = ''word'', outcome = ''wrong'', ts = - 10\<rparr>])) = - 5 \<and>
   Max (ts ` set (eventsOf ''itemB''
          [\<lparr>itemId = ''itemA'', itemType = ''word'', outcome = ''wrong'', ts = - 5\<rparr>,
           \<lparr>itemId = ''itemB'', itemType = ''word'', outcome = ''wrong'', ts = - 10\<rparr>])) = - 10 \<and>
   ranked [\<lparr>itemId = ''itemA'', itemType = ''word'', outcome = ''toString'', ts = 4\<rparr>]
     = [\<lparr>r_itemId = ''itemA'', best = NaN, lastTs = Num 4\<rparr>] \<and>
   rankEvents [\<lparr>itemId = ''__proto__'', itemType = ''word'', outcome = ''wrong'', ts = 4\<rparr>] = []"
  by (simp add: rank_eval eventsOf_def)

text \<open>
  Claim C2, amended. The weights are wrong = 3, correct = 2, view = 1 and 0 for every other
  outcome that does not name a member of \<open>Object.prototype\<close>. For plain events, whose
  item ids and outcomes name no such member, the output lists every item id of the events
  once. The accumulator of an item holds as
  \<open>best\<close> the maximum of the weights of its events and as \<open>lastTs\<close> the maximum of 0 and
  the timestamps of its events (the maximum of the timestamps whenever one of them is
  not negative). The output is sorted by \<open>best\<close> descending and, on ties, by \<open>lastTs\<close>
  ascending. The events A correct, B wrong, C view give \<open>[B, A, C]\<close>, whatever their
  timestamps, and A wrong at 10, B wrong at 5 give \<open>[B, A]\<close>.
\<close>

theorem rank_by_severity:
  "score ''wrong'' = Num 3 \<and> score ''correct'' = Num 2 \<and> score ''view'' = Num 1 \<and>
   (out \<notin> {''wrong'', ''correct'', ''view''} \<and> out \<notin> set protoNames \<longrightarrow> score out = Num 0) \<and>
   rankEvents es = map r_itemId (ranked es) \<and>
   ((\<forall>e\<in>set es. plainEvent e) \<longrightarrow>
      (\<forall>e\<in>set es. score (outcome e) = Num (weight (outcome e))) \<and>
      distinct (rankEvents es) \<and> set (rankEvents es) = itemId ` set es \<and>
      (\<forall>r\<in>set (ranked es).
         best r = Num (Max ((\<lambda>e. weight (outcome e)) ` set (eventsOf (r_itemId r) es))) \<and>
         lastTs r = Num (max 0 (Max (ts ` set (eventsOf (r_itemId r) es))))) \<and>
      sorted_wrt rankOrder (ranked es)) \<and>
   rankEvents [\<lparr>itemId = ''itemA'', itemType = tyA, outcome = ''correct'', ts = tA\<rparr>,
               \<lparr>itemId = ''itemB'', itemType = tyB, outcome = ''wrong'', ts = tB\<rparr>,
               \<lparr>itemId = ''itemC'', itemType = tyC, outcome = ''view'', ts = tC\<rparr>]
     = [''itemB'', ''itemA'', ''itemC''] \<and>
   rankEvents [\<lparr>itemId = ''itemA'', itemType = tyA, outcome = ''wrong'', ts = 10\<rparr>,
               \<lparr>itemId = ''itemB'', itemType = tyB, outcome = ''wrong'', ts = 5\<rparr>]
     = [''itemB'', ''itemA'']"
proof (intro conjI ballI impI)
  show "score ''wrong'' = Num 3" "score ''correct'' = Num 2" "score ''view'' = Num 1"
    by (simp_all add: score_def)
  show "score out = Num 0" if "out \<notin> {''wrong'', ''correct'', ''view''} \<and> out \<notin> set protoNames"
    using that by (simp add: score_def)
  show "rankEvents es = map r_itemId (ranked es)" by (rule rankEvents_def)
  show "rankEvents [\<lparr>itemId = ''itemA'', itemType = tyA, outcome = ''correct'', ts = tA\<rparr>,
               \<lparr>itemId = ''itemB'', itemType = tyB, outcome = ''wrong'', ts = tB\<rparr>,
               \<lparr>itemId = ''itemC'', itemType = tyC, outcome = ''view'', ts = tC\<rparr>]
     = [''itemB'', ''itemA'', ''itemC'']"
    by (simp add: rank_eval)
  show "rankEvents [\<lparr>itemId = ''itemA'', itemType = tyA, outcome = ''wrong'', ts = 10\<rparr>,
               \<lparr>itemId = ''itemB'', itemType = tyB, outcome = ''wrong'', ts = 5\<rparr>]
     = [''itemB'', ''itemA'']"
    by (simp add: rank_eval)
next
  assume p: "\<forall>e\<in>set es. plainEvent e"
  show "distinct (rankEvents es)" using p by (rule distinct_rankEvents)
  show "set (rankEvents es) = itemId ` set es" using p by (rule set_rankEvents)
  show "sorted_wrt rankOrder (ranked es)" using p by (rule sorted_ranked)
next
  fix e assume p: "\<forall>e\<in>set es. plainEvent e" and "e \<in> set es"
  then have "outcome e \<notin> set protoNames" by (simp add: plainEvent_def)
  then show "score (outcome e) = Num (weight (outcome e))" by (rule score_plain)
next
  fix r assume p: "\<forall>e\<in>set es. plainEvent e" and r: "r \<in> set (ranked es)"
  show "best r = Num (Max ((\<lambda>e. weight (outcome e)) ` set (eventsOf (r_itemId r) es)))"
    using entry_in_ranked [OF p r] best_entryOf [of "r_itemId r" es] by simp
  show "lastTs r = Num (max 0 (Max (ts ` set (eventsOf (r_itemId r) es))))"
    using entry_in_ranked [OF p r] lastTs_entryOf [of "r_itemId r" es] by simp
qed

theorem rank_by_severity_witness:
  "ranked [\<lparr>itemId = ''itemA'', itemType = ''word'', outcome = ''view'', ts = 4\<rparr>,
           \<lparr>itemId = ''itemA'', itemType = ''word'', outcome = ''wrong'', ts = 9\<rparr>,
           \<lparr>itemId = ''itemA'', itemType = ''word'', outcome = ''correct'', ts = 6\<rparr>]
     = [\<lparr>r_itemId = ''itemA'', best = Num 3, lastTs = Num 9\<rparr>] \<and>
   (3::int) = Max ((\<lambda>e. weight (outcome e)) ` set (eventsOf ''itemA''
          [\<lparr>itemId = ''itemA'', itemType = ''word'', outcome = ''view'', ts = 4\<rparr>,
           \<lparr>itemId = ''itemA'', itemType = ''word'', outcome = ''wrong'', ts = 9\<rparr>,
           \<lparr>itemId = ''itemA'', itemType = ''word'', outcome = ''correct'', ts = 6\<rparr>])) \<and>
   (9::int) = max 0 (Max (ts ` set (eventsOf ''itemA''
          [\<lparr>itemId = ''itemA'', itemType = ''word'', outcome = ''view'', ts = 4\<rparr>,
           \<lparr>itemId = ''itemA'', itemType = ''word'', outcome = ''wrong'', ts = 9\<rparr>,
           \<lparr>itemId = ''itemA'', itemType = ''word'', outcome = ''correct'', ts = 6\<rparr>])))"
  using rank_by_severity
    [where es = "[\<lparr>itemId = ''itemA'', itemType = ''word'', outcome = ''view'', ts = 4\<rparr>,
          \<lparr>itemId = ''itemA'', itemType = ''word'', outcome = ''wrong'', ts = 9\<rparr>,
          \<lparr>itemId = ''itemA'', itemType = ''word'', outcome = ''correct'', ts = 6\<rparr>]"
        and out = "''skipped''"]
  by (simp add: rank_eval eventsOf_def plainEvent_def weight_def)

section \<open>Properties of quiz resolution\<close>

lemma qid_wordItem: "qid (wordItem di wi w) = wordId di wi"
  by (simp add: wordItem_def)

lemma qid_patternItem: "qid (patternItem di day) = patternId di"
  by (simp add: patternItem_def)

lemma wordsLoop_filter:
  "wordsLoop itemIds di wi ws items =
     items @ filter (\<lambda>it. qid it \<in> set itemIds) (map (\<lambda>(k, w). wordItem di k w) (enumerate wi ws))"
  by (induction ws arbitrary: wi items) (simp_all add: qid_wordItem)

lemma daysLoop_filter:
  "daysLoop itemIds di days items =
     items @ filter (\<lambda>it. qid it \<in> set itemIds)
               (concat (map (\<lambda>(k, day). dayItems k day) (enumerate di days)))"
  by (induction days arbitrary: di items)
     (simp_all add: Let_def wordsLoop_filter dayItems_def qid_patternItem)

lemma generateQuizData_filter:
  "generateQuizData itemIds plan = filter (\<lambda>it. qid it \<in> set itemIds) (catalogItems plan)"
  by (simp add: generateQuizData_def daysLoop_filter catalogItems_def)

lemma showNat_not_Nil: "showNat n \<noteq> []"
  by (subst showNat.simps) simp

lemma digit_range: "n < 10 \<Longrightarrow> n \<in> {0, 1, 2, 3, 4, 5, 6, 7, 8, 9 :: nat}"
  by auto

lemma digitChar_one: "n < 10 \<Longrightarrow> digitChar n = CHR ''1'' \<longleftrightarrow> n = 1"
  using digit_range [of n] by (auto simp: digitChar_def)

lemma showNat_one: "showNat n = ''1'' \<longleftrightarrow> n = 1"
proof (cases "n < 10")
  case True
  then show ?thesis by (subst showNat.simps) (simp add: digitChar_one)
next
  case False
  then have "showNat n = showNat (n div 10) @ [digitChar (n mod 10)]"
    by (subst showNat.simps) simp
  then have "length (showNat n) \<noteq> 1" using showNat_not_Nil [of "n div 10"] by simp
  then show ?thesis using False by auto
qed

lemma showNat_1: "showNat (Suc 0) = ''1''"
  by (simp add: showNat.simps digitChar_def)

lemma showNat_2: "showNat (Suc (Suc 0)) = ''2''"
  by (simp add: showNat.simps digitChar_def)


lemma wordId_first_day: "wordId 0 k = ''D1W'' @ showNat (k + 1)"
  by (simp add: wordId_def showNat_1)

lemma wordId_second_day: "wordId (Suc 0) k = ''D2W'' @ showNat (k + 1)"
  by (simp add: wordId_def showNat_2)

lemma example_day1:
  "filter (\<lambda>it. qid it \<in> set [''D2W1'', ''D1P''])
     (map (\<lambda>(k, w). wordItem 0 k w) (enumerate 0 ws)) = []"
  by (auto simp: filter_empty_conv qid_wordItem wordId_first_day)

lemma example_day2_rest:
  "filter (\<lambda>it. qid it \<in> set [''D2W1'', ''D1P''])
     (map (\<lambda>(k, w). wordItem (Suc 0) k w) (enumerate (Suc 0) ws)) = []"
  by (auto simp: filter_empty_conv qid_wordItem wordId_second_day showNat_one in_set_enumerate_eq)

lemma example_two_days:
  assumes "words d2 = w # ws"
  shows "generateQuizData [''D2W1'', ''D1P''] [d1, d2] = [patternItem 0 d1, wordItem 1 0 w]"
proof -
  have c: "catalogItems [d1, d2] = dayItems 0 d1 @ dayItems (Suc 0) d2"
    by (simp add: catalogItems_def)
  have a: "filter (\<lambda>it. qid it \<in> set [''D2W1'', ''D1P'']) (dayItems 0 d1) = [patternItem 0 d1]"
    unfolding dayItems_def filter_append example_day1
    by (simp add: qid_patternItem patternId_def showNat_1)
  have b: "filter (\<lambda>it. qid it \<in> set [''D2W1'', ''D1P'']) (dayItems (Suc 0) d2) = [wordItem 1 0 w]"
    unfolding dayItems_def filter_append assms enumerate_simps list.map filter.simps example_day2_rest
    by (simp add: qid_patternItem patternId_def showNat_2 qid_wordItem wordId_second_day showNat_1)
  show ?thesis
    unfolding generateQuizData_filter c filter_append a b by simp
qed

text \<open>
  Claim C4. \<open>generateQuizData\<close> returns the items of the catalog whose id is among the
  requested ids, in catalog order: the days in order, in each day the words in order and
  then the pattern. The result depends on the set of the requested ids only, not on their
  order. Requested ids that the catalog does not have are dropped: leaving them out of
  the request gives the same result, and there is no error. Requesting \<open>D2W1\<close> and
  \<open>D1P\<close>, in this order, from a catalog of two days gives the pattern of the first day
  and then the first word of the second.
\<close>

theorem quiz_resolution:
  "generateQuizData itemIds plan = filter (\<lambda>it. qid it \<in> set itemIds) (catalogItems plan) \<and>
   (set itemIds = set itemIds' \<longrightarrow>
      generateQuizData itemIds plan = generateQuizData itemIds' plan) \<and>
   generateQuizData itemIds plan
     = generateQuizData (filter (\<lambda>i. i \<in> qid ` set (catalogItems plan)) itemIds) plan \<and>
   (i \<notin> qid ` set (catalogItems plan) \<longrightarrow>
      generateQuizData (i # itemIds) plan = generateQuizData itemIds plan) \<and>
   (words d2 = w # ws \<longrightarrow>
      generateQuizData [''D2W1'', ''D1P''] [d1, d2] = [patternItem 0 d1, wordItem 1 0 w])"
proof (intro conjI impI)
  show "generateQuizData itemIds plan = filter (\<lambda>it. qid it \<in> set itemIds) (catalogItems plan)"
    by (rule generateQuizData_filter)
  show "generateQuizData itemIds plan = generateQuizData itemIds' plan"
    if "set itemIds = set itemIds'"
    using that by (simp add: generateQuizData_filter)
  show "generateQuizData itemIds plan
     = generateQuizData (filter (\<lambda>i. i \<in> qid ` set (catalogItems plan)) itemIds) plan"
    unfolding generateQuizData_filter by (rule filter_cong) auto
  show "generateQuizData (i # itemIds) plan = generateQuizData itemIds plan"
    if "i \<notin> qid ` set (catalogItems plan)"
    unfolding generateQuizData_filter using that by (intro filter_cong) auto
  show "generateQuizData [''D2W1'', ''D1P''] [d1, d2] = [patternItem 0 d1, wordItem 1 0 w]"
    if "words d2 = w # ws"
    using that by (rule example_two_days)
qed

theorem quiz_resolution_witness:
  "generateQuizData [''D2W1'', ''D1P''] plan4
     = [\<lparr>qid = ''D1P'', qtype = ''pattern'', qjp = ''p1'', qko = ''k1''\<rparr>,
        \<lparr>qid = ''D2W1'', qtype = ''word'', qjp = ''tori'', qko = ''bird''\<rparr>] \<and>
   generateQuizData [''D1P'', ''D2W1'', ''D1P''] plan4
     = generateQuizData [''D2W1'', ''D1P''] plan4 \<and>
   generateQuizData [''D7W3'', ''D2W1'', ''D1P''] plan4
     = generateQuizData [''D2W1'', ''D1P''] plan4"
proof -
  have w: "words (plan4 ! 1) = \<lparr>jp = ''tori'', ko = ''bird''\<rparr> # [\<lparr>jp = ''sakana'', ko = ''fish''\<rparr>]"
    by (simp add: plan4_def)
  have p: "plan4 = [plan4 ! 0, plan4 ! 1]" by (simp add: plan4_def)
  have s: "set [''D2W1'', ''D1P''] = set [''D1P'', ''D2W1'', ''D1P'']" by auto
  have n: "''D7W3'' \<notin> qid ` set (catalogItems plan4)"
    by (simp add: plan4_def catalogItems_def dayItems_def wordItem_def patternItem_def
        wordId_def patternId_def showNat.simps digitChar_def)
  have e: "generateQuizData [''D2W1'', ''D1P''] [plan4 ! 0, plan4 ! 1]
             = [patternItem 0 (plan4 ! 0), wordItem 1 0 \<lparr>jp = ''tori'', ko = ''bird''\<rparr>]"
    using quiz_resolution [of _ _ _ _ "plan4 ! 1"] w by blast
  have e': "generateQuizData [''D2W1'', ''D1P''] plan4
     = [\<lparr>qid = ''D1P'', qtype = ''pattern'', qjp = ''p1'', qko = ''k1''\<rparr>,
        \<lparr>qid = ''D2W1'', qtype = ''word'', qjp = ''tori'', qko = ''bird''\<rparr>]"
    using e p by (simp add: plan4_def patternItem_def wordItem_def wordId_def patternId_def
        showNat.simps digitChar_def)
  from quiz_resolution [of "[''D2W1'', ''D1P'']" plan4 "[''D1P'', ''D2W1'', ''D1P'']" "''D7W3''"] s n e'
  show ?thesis by metis
qed

section \<open>Properties of storage and the quiz handoff\<close>

subsection \<open>Starting a quiz with nothing to review\<close>

text \<open>
  Claim C10. When \<open>startQuiz\<close> is called with an absent or an empty list of item ids, the
  state is unchanged except for one more alert, "nothing to review": the pending quiz
  items are not written, the event log is untouched and the page does not move.
\<close>

theorem startQuiz_nothing_to_review:
  "itemIds = None \<or> itemIds = Some [] \<Longrightarrow>
     startQuiz itemIds st = st\<lparr>alerts := alerts st @ [NothingToReview]\<rparr> \<and>
     quizItems (startQuiz itemIds st) = quizItems st \<and>
     studyLog (startQuiz itemIds st) = studyLog st \<and>
     pathname (startQuiz itemIds st) = pathname st"
  by (auto simp: startQuiz_def)

theorem startQuiz_nothing_to_review_witness:
  "startQuiz (Some [])
     \<lparr>studyLog = Absent, quizItems = Parsed [''D1W1''], pathname = ''/pages/review.html'',
      alerts = [], container = None, current = 0\<rparr>
   = \<lparr>studyLog = Absent, quizItems = Parsed [''D1W1''], pathname = ''/pages/review.html'',
      alerts = [NothingToReview], container = None, current = 0\<rparr>"
  using startQuiz_nothing_to_review
    [of "Some []" "\<lparr>studyLog = Absent, quizItems = Parsed [''D1W1''],
       pathname = ''/pages/review.html'', alerts = [], container = None, current = 0\<rparr>"]
  by simp

text \<open>With an id in the list the items are written and the page moves to the quiz.\<close>

lemma startQuiz_some:
  "startQuiz (Some [''D1W1''])
     \<lparr>studyLog = Absent, quizItems = Absent, pathname = ''/pages/review.html'',
      alerts = [], container = None, current = 0\<rparr>
   = \<lparr>studyLog = Absent, quizItems = Parsed [''D1W1''], pathname = ''/pages/quiz.html'',
      alerts = [], container = None, current = 0\<rparr>"
  by (simp add: startQuiz_def dirName_def)

subsection \<open>A stored log that does not decode\<close>

text \<open>
  Claim C7 says that a stored text that fails to decode as JSON is read as the empty log
  and that nothing crashes. The three readers of the log call \<open>JSON.parse\<close> with no
  \<open>try\<close> around it; the only default is \<open>|| '[]'\<close>, for a key that is absent or empty. On
  a text that is not JSON each of them throws.
\<close>

theorem malformed_log_throws:
  "logStudy ''D1W1'' ''word'' ''view'' 1736434800000
     \<lparr>studyLog = Malformed, quizItems = Absent, pathname = ''/pages/day1.html'',
      alerts = [], container = None, current = 0\<rparr> = Inl SyntaxError \<and>
   getYesterdayReviewSet seoulOffset 30 1736434800000
     \<lparr>studyLog = Malformed, quizItems = Absent, pathname = ''/pages/day1.html'',
      alerts = [], container = None, current = 0\<rparr> = Inl SyntaxError \<and>
   getLast7DaysReviewSet seoulOffset 30 1736434800000 1736434800000
     \<lparr>studyLog = Malformed, quizItems = Absent, pathname = ''/pages/day1.html'',
      alerts = [], container = None, current = 0\<rparr> = Inl SyntaxError"
  by (simp add: logStudy_def getYesterdayReviewSet_def getLast7DaysReviewSet_def parseStored_def)

text \<open>
  Claim C7, amended. When the key of the event log is absent or its text is empty, every
  operation that reads the log takes it to be the empty list: \<open>logStudy\<close> stores the list
  of the one new event, and both review sets are empty. When the text fails to decode as
  JSON, \<open>logStudy\<close> and both review sets throw the \<open>SyntaxError\<close> of \<open>JSON.parse\<close>, and
  nothing is written.
\<close>

theorem log_decoding:
  "(studyLog st = Malformed \<longrightarrow>
      logStudy i ty out now st = Inl SyntaxError \<and>
      getYesterdayReviewSet zone maxItems now st = Inl SyntaxError \<and>
      getLast7DaysReviewSet zone maxItems now7 now1 st = Inl SyntaxError) \<and>
   (studyLog st = Absent \<or> studyLog st = Blank \<longrightarrow>
      logStudy i ty out now st =
        Inr (st\<lparr>studyLog := Parsed [\<lparr>itemId = i, itemType = ty, outcome = out, ts = now\<rparr>]\<rparr>) \<and>
      getYesterdayReviewSet zone maxItems now st = Inr [] \<and>
      getLast7DaysReviewSet zone maxItems now7 now1 st = Inr [])"
  by (auto simp: logStudy_def getYesterdayReviewSet_def getLast7DaysReviewSet_def
      parseStored_def rankEvents_Nil slice0_def)

theorem log_decoding_witness:
  "logStudy ''D1W1'' ''word'' ''view'' 5
     \<lparr>studyLog = Blank, quizItems = Absent, pathname = [], alerts = [], container = None,
      current = 0\<rparr>
   = Inr \<lparr>studyLog = Parsed [\<lparr>itemId = ''D1W1'', itemType = ''word'', outcome = ''view'', ts = 5\<rparr>],
          quizItems = Absent, pathname = [], alerts = [], container = None, current = 0\<rparr> \<and>
   getYesterdayReviewSet seoulOffset 30 5
     \<lparr>studyLog = Malformed, quizItems = Absent, pathname = [], alerts = [], container = None,
      current = 0\<rparr> = Inl SyntaxError"
  using log_decoding [of "\<lparr>studyLog = Blank, quizItems = Absent, pathname = [], alerts = [],
      container = None, current = 0\<rparr>" "''D1W1''" "''word''" "''view''" 5 seoulOffset 30]
    log_decoding [of "\<lparr>studyLog = Malformed, quizItems = Absent, pathname = [], alerts = [],
      container = None, current = 0\<rparr>" "''D1W1''" "''word''" "''view''" 5 seoulOffset 30]
  by simp

section \<open>Properties of the quiz page\<close>

lemma showNext_keeps:
  "showNext plan items rnd st = Some (Inr st') \<Longrightarrow>
     studyLog st' = studyLog st \<and> quizItems st' = quizItems st \<and> current st' = current st"
  by (auto simp: showNext_def Let_def split: option.splits sum.splits if_splits)

lemma selectChoice_eq:
  assumes "parseStored (studyLog st) = Inr log"
  shows "selectChoice plan items item opt now rnd st
           = showNext plan items rnd
               (st\<lparr>studyLog := Parsed (log @ [answerEvent item opt now]),
                   current := current st + 1\<rparr>)"
  using assms by (simp add: selectChoice_def logStudy_def answerEvent_def)

lemma answerEvent_fields:
  "itemId (answerEvent item opt now) = qid item"
  "itemType (answerEvent item opt now) = qtype item"
  "ts (answerEvent item opt now) = now"
  "outcome (answerEvent item opt now) = ''correct'' \<longleftrightarrow> opt = qko item"
  "outcome (answerEvent item opt now) = ''wrong'' \<longleftrightarrow> opt \<noteq> qko item"
  by (simp_all add: answerEvent_def)

subsection \<open>Selecting an answer\<close>

text \<open>
  Claim C5 says that selecting an answer always appends one event. The handler starts
  with \<open>logStudy\<close>, which reads the stored log before it appends: when the stored text is
  not JSON, \<open>JSON.parse\<close> throws, nothing is appended and \<open>current++\<close> is not reached.
\<close>

theorem answer_on_malformed_log:
  "selectChoice plan4 [wordItem 0 0 \<lparr>jp = ''neko'', ko = ''cat''\<rparr>]
      (wordItem 0 0 \<lparr>jp = ''neko'', ko = ''cat''\<rparr>) ''cat'' 1736434800000
      \<lparr>draws = [], perm = []\<rparr>
      \<lparr>studyLog = Malformed, quizItems = Parsed [''D1W1''], pathname = ''/quiz.html'',
       alerts = [],
       container = Some (Question (wordItem 0 0 \<lparr>jp = ''neko'', ko = ''cat''\<rparr>)
                          [''dog'', ''cat'', ''bird'', ''fish'']),
       current = 0\<rparr>
   = Some (Inl SyntaxError)"
  by (simp add: selectChoice_def logStudy_def parseStored_def)

text \<open>
  Claim C5, amended. For a stored log that decodes to \<open>log\<close> (an absent or empty key is
  the empty log), selecting the choice \<open>opt\<close> of the question for \<open>item\<close> appends exactly
  one event to the log, which becomes \<open>log @ [event]\<close>, and advances the cursor by one,
  before the next question is built; building the next question changes neither. The
  event carries the id and the type of the item and the time of the click; its outcome
  is \<open>correct\<close> if and only if the chosen text equals the answer of the item, and \<open>wrong\<close>
  otherwise.
\<close>

theorem answer_appends_one_event:
  assumes "parseStored (studyLog st) = Inr log"
  shows "selectChoice plan items item opt now rnd st
           = showNext plan items rnd
               (st\<lparr>studyLog := Parsed (log @ [answerEvent item opt now]),
                   current := current st + 1\<rparr>) \<and>
         (\<forall>st'. selectChoice plan items item opt now rnd st = Some (Inr st') \<longrightarrow>
            studyLog st' = Parsed (log @ [answerEvent item opt now]) \<and>
            current st' = current st + 1) \<and>
         itemId (answerEvent item opt now) = qid item \<and>
         itemType (answerEvent item opt now) = qtype item \<and>
         ts (answerEvent item opt now) = now \<and>
         (outcome (answerEvent item opt now) = ''correct'' \<longleftrightarrow> opt = qko item) \<and>
         (outcome (answerEvent item opt now) = ''wrong'' \<longleftrightarrow> opt \<noteq> qko item)"
proof (intro conjI allI impI)
  show "selectChoice plan items item opt now rnd st
           = showNext plan items rnd
               (st\<lparr>studyLog := Parsed (log @ [answerEvent item opt now]),
                   current := current st + 1\<rparr>)"
    using assms by (rule selectChoice_eq)
next
  fix st' assume r: "selectChoice plan items item opt now rnd st = Some (Inr st')"
  have k: "showNext plan items rnd
               (st\<lparr>studyLog := Parsed (log @ [answerEvent item opt now]),
                   current := current st + 1\<rparr>) = Some (Inr st')"
    using r selectChoice_eq [OF assms] by simp
  show "studyLog st' = Parsed (log @ [answerEvent item opt now])"
    using showNext_keeps [OF k] by simp
  show "current st' = current st + 1"
    using showNext_keeps [OF k] by simp
qed (rule answerEvent_fields)+


theorem answer_appends_one_event_witness:
  "selectChoice [] [\<lparr>qid = ''D1W1'', qtype = ''word'', qjp = ''neko'', qko = ''cat''\<rparr>]
      \<lparr>qid = ''D1W1'', qtype = ''word'', qjp = ''neko'', qko = ''cat''\<rparr> ''dog'' 77
      \<lparr>draws = [], perm = []\<rparr>
      \<lparr>studyLog = Parsed [\<lparr>itemId = ''D1P'', itemType = ''pattern'', outcome = ''view'', ts = 3\<rparr>],
       quizItems = Parsed [''D1W1''], pathname = ''/quiz.html'', alerts = [],
       container = Some (Question \<lparr>qid = ''D1W1'', qtype = ''word'', qjp = ''neko'', qko = ''cat''\<rparr>
                          [''dog'', ''cat'', ''bird'', ''fish'']),
       current = 0\<rparr>
   = Some (Inr
      \<lparr>studyLog = Parsed [\<lparr>itemId = ''D1P'', itemType = ''pattern'', outcome = ''view'', ts = 3\<rparr>,
                          \<lparr>itemId = ''D1W1'', itemType = ''word'', outcome = ''wrong'', ts = 77\<rparr>],
       quizItems = Parsed [''D1W1''], pathname = ''/quiz.html'', alerts = [],
       container = Some QuizComplete, current = 1\<rparr>)"
proof -
  let ?st = "\<lparr>studyLog = Parsed [\<lparr>itemId = ''D1P'', itemType = ''pattern'', outcome = ''view'', ts = 3\<rparr>],
       quizItems = Parsed [''D1W1''], pathname = ''/quiz.html'', alerts = [],
       container = Some (Question \<lparr>qid = ''D1W1'', qtype = ''word'', qjp = ''neko'', qko = ''cat''\<rparr>
                          [''dog'', ''cat'', ''bird'', ''fish'']),
       current = 0\<rparr>"
  have h: "parseStored (studyLog ?st)
             = Inr [\<lparr>itemId = ''D1P'', itemType = ''pattern'', outcome = ''view'', ts = 3\<rparr>]"
    by (simp add: parseStored_def)
  have "selectChoice [] [\<lparr>qid = ''D1W1'', qtype = ''word'', qjp = ''neko'', qko = ''cat''\<rparr>]
      \<lparr>qid = ''D1W1'', qtype = ''word'', qjp = ''neko'', qko = ''cat''\<rparr> ''dog'' 77
      \<lparr>draws = [], perm = []\<rparr> ?st
    = showNext [] [\<lparr>qid = ''D1W1'', qtype = ''word'', qjp = ''neko'', qko = ''cat''\<rparr>]
        \<lparr>draws = [], perm = []\<rparr>
        (?st\<lparr>studyLog := Parsed ([\<lparr>itemId = ''D1P'', itemType = ''pattern'', outcome = ''view'', ts = 3\<rparr>]
            @ [answerEvent \<lparr>qid = ''D1W1'', qtype = ''word'', qjp = ''neko'', qko = ''cat''\<rparr> ''dog'' 77]),
          current := current ?st + 1\<rparr>)"
    using answer_appends_one_event [OF h] by (rule conjunct1)
  then show ?thesis
    by (simp add: showNext_def answerEvent_def)
qed

text \<open>
  With a stored log that is not JSON the handler throws for every question and every
  choice, before anything is appended and before the cursor moves.
\<close>

lemma selectChoice_malformed:
  "studyLog st = Malformed \<Longrightarrow>
     selectChoice plan items item opt now rnd st = Some (Inl SyntaxError)"
  by (simp add: selectChoice_def logStudy_def parseStored_def)

subsection \<open>A quiz without items\<close>

lemma showNext_no_items:
  "showNext plan [] rnd st =
     Some (Inr (case container st of None \<Rightarrow> st | Some v \<Rightarrow> st\<lparr>container := Some QuizComplete\<rparr>))"
  by (simp add: showNext_def split: option.splits)

lemma generateQuizData_Nil: "generateQuizData itemIds [] = []"
  by (simp add: generateQuizData_def)

lemma loadDailyPlan_no_items:
  assumes "fetched = None \<or> (\<exists>plan. fetched = Some plan \<and> generateQuizData ids plan = [])"
  shows "loadDailyPlan fetched (\<lambda>plan. showNext plan (generateQuizData ids plan) rnd st)
           = Some (Inr (case container st of None \<Rightarrow> st
                        | Some v \<Rightarrow> st\<lparr>container := Some QuizComplete\<rparr>))"
  using assms
proof
  assume "fetched = None"
  then show ?thesis
    by (simp add: loadDailyPlan_def generateQuizData_Nil showNext_no_items)
next
  assume "\<exists>plan. fetched = Some plan \<and> generateQuizData ids plan = []"
  then obtain plan where "fetched = Some plan" "generateQuizData ids plan = []" by blast
  then show ?thesis
    by (simp add: loadDailyPlan_def showNext_no_items)
qed

lemma buildQuizPage_no_items:
  assumes "parseStored (quizItems st) = Inr ids"
    and "fetched = None \<or> (\<exists>plan. fetched = Some plan \<and> generateQuizData ids plan = [])"
  shows "buildQuizPage fetched rnd st =
           Some (Inr (case container st of
                        None \<Rightarrow> if ids = [] then st else st\<lparr>current := 0\<rparr>
                      | Some v \<Rightarrow>
                          if ids = [] then st\<lparr>container := Some NoItems\<rparr>
                          else st\<lparr>current := 0, container := Some QuizComplete\<rparr>))"
proof (cases "ids = []")
  case True
  then show ?thesis using assms(1)
    by (simp add: buildQuizPage_def split: option.splits)
next
  case False
  then show ?thesis using assms(1) loadDailyPlan_no_items [OF assms(2), of rnd "st\<lparr>current := 0\<rparr>"]
    by (simp add: buildQuizPage_def split: option.splits)
qed

text \<open>
  Claim C8. When no quiz item is resolved the page never shows a question
  (\<open>buildQuizPage_no_items\<close>). It reports "no items" only when the stored list of ids is
  itself empty. When ids are stored and none resolves, be it that the catalog could not
  be fetched and is taken as empty or that it lacks the ids, \<open>showNext\<close> finds the cursor
  at the end of the empty item list and reports "quiz complete" instead.
\<close>

theorem unresolved_items_show_complete:
  "buildQuizPage None \<lparr>draws = [], perm = []\<rparr>
     \<lparr>studyLog = Absent, quizItems = Parsed [''D1W1''], pathname = ''/pages/quiz.html'',
      alerts = [], container = Some Untouched, current = 0\<rparr>
   = Some (Inr \<lparr>studyLog = Absent, quizItems = Parsed [''D1W1''], pathname = ''/pages/quiz.html'',
      alerts = [], container = Some QuizComplete, current = 0\<rparr>) \<and>
   generateQuizData [''D9W9'']
     [\<lparr>pattern = ''p'', pattern_ko = ''q'', words = [\<lparr>jp = ''neko'', ko = ''cat''\<rparr>]\<rparr>] = [] \<and>
   buildQuizPage (Some [\<lparr>pattern = ''p'', pattern_ko = ''q'', words = [\<lparr>jp = ''neko'', ko = ''cat''\<rparr>]\<rparr>])
     \<lparr>draws = [], perm = []\<rparr>
     \<lparr>studyLog = Absent, quizItems = Parsed [''D9W9''], pathname = ''/pages/quiz.html'',
      alerts = [], container = Some Untouched, current = 0\<rparr>
   = Some (Inr \<lparr>studyLog = Absent, quizItems = Parsed [''D9W9''], pathname = ''/pages/quiz.html'',
      alerts = [], container = Some QuizComplete, current = 0\<rparr>) \<and>
   buildQuizPage None \<lparr>draws = [], perm = []\<rparr>
     \<lparr>studyLog = Absent, quizItems = Parsed [], pathname = ''/pages/quiz.html'',
      alerts = [], container = Some Untouched, current = 0\<rparr>
   = Some (Inr \<lparr>studyLog = Absent, quizItems = Parsed [], pathname = ''/pages/quiz.html'',
      alerts = [], container = Some NoItems, current = 0\<rparr>)"
  by (simp add: buildQuizPage_def loadDailyPlan_def showNext_def parseStored_def
      generateQuizData_def wordId_def patternId_def showNat.simps digitChar_def)

subsection \<open>The choices of a question\<close>

lemma sampleOptions_full: "\<not> length options < 4 \<Longrightarrow> sampleOptions plan ds options = Some (Inr options)"
  by (cases ds) auto

lemma drawText_in_pool:
  assumes "drawText plan d = Some t"
  shows "t \<in> set (wordTexts plan)"
proof -
  from assms have i: "fst d < length plan" and j: "snd d < length (words (plan ! fst d))"
    and t: "t = ko (words (plan ! fst d) ! snd d)"
    by (auto simp: drawText_def nthOpt_def split: option.splits if_splits)
  have "plan ! fst d \<in> set plan" using i by simp
  moreover have "words (plan ! fst d) ! snd d \<in> set (words (plan ! fst d))" using j by simp
  ultimately show ?thesis using t by (auto simp: wordTexts_def)
qed

lemma pool_drawable: "t \<in> set (wordTexts plan) \<Longrightarrow> \<exists>d. drawText plan d = Some t"
proof -
  assume "t \<in> set (wordTexts plan)"
  then obtain day w where dw: "day \<in> set plan" "w \<in> set (words day)" "t = ko w"
    by (auto simp: wordTexts_def)
  then obtain i j where "i < length plan" "plan ! i = day" "j < length (words day)" "words day ! j = w"
    by (auto simp: in_set_conv_nth)
  then have "drawText plan (i, j) = Some t" using dw
    by (simp add: drawText_def nthOpt_def)
  then show ?thesis by blast
qed

lemma sampleOptions_step:
  "length options < 4 \<Longrightarrow>
   sampleOptions plan (d # ds) options =
     (case drawText plan d of
        None \<Rightarrow> Some (Inl TypeError)
      | Some t \<Rightarrow> sampleOptions plan ds (if t \<in> set options then options else options @ [t]))"
  by (cases d) (auto simp: drawText_def split: option.splits)

lemma sampleOptions_shape:
  assumes "sampleOptions plan ds options = Some (Inr opts)"
    and "distinct options" "length options \<le> 4" "options \<noteq> []"
  shows "length opts = 4 \<and> distinct opts \<and> hd opts = hd options \<and>
         set opts \<subseteq> set options \<union> set (wordTexts plan)"
  using assms
proof (induction ds arbitrary: options)
  case Nil
  then show ?case by (auto split: if_splits)
next
  case (Cons d ds)
  show ?case
  proof (cases "length options < 4")
    case False
    then have "opts = options" using Cons.prems(1) by (simp add: sampleOptions_full)
    then show ?thesis using Cons.prems False by auto
  next
    case True
    then obtain t where t: "drawText plan d = Some t"
      and r: "sampleOptions plan ds (if t \<in> set options then options else options @ [t]) = Some (Inr opts)"
      using Cons.prems(1) by (auto simp: sampleOptions_step split: option.splits)
    let ?o = "if t \<in> set options then options else options @ [t]"
    have "distinct ?o" "length ?o \<le> 4" "?o \<noteq> []" using Cons.prems True by auto
    from Cons.IH [OF r this]
    have "length opts = 4 \<and> distinct opts \<and> hd opts = hd ?o \<and> set opts \<subseteq> set ?o \<union> set (wordTexts plan)" .
    moreover have "hd ?o = hd options" using Cons.prems(4) by auto
    moreover have "set ?o \<subseteq> set options \<union> set (wordTexts plan)"
      using drawText_in_pool [OF t] by auto
    ultimately show ?thesis by auto
  qed
qed

lemma sampleOptions_returns_iff:
  assumes "\<forall>d\<in>set ds. drawText plan d \<noteq> None"
    and "distinct options" "length options \<le> 4"
  shows "(\<exists>opts. sampleOptions plan ds options = Some (Inr opts)) \<longleftrightarrow>
         4 \<le> card (set options \<union> set (map (\<lambda>d. the (drawText plan d)) ds))"
  using assms
proof (induction ds arbitrary: options)
  case Nil
  then show ?case by (auto simp: distinct_card)
next
  case (Cons d ds)
  show ?case
  proof (cases "length options < 4")
    case False
    then have "card (set options) = 4" using Cons.prems by (simp add: distinct_card)
    moreover have "card (set options) \<le> card (set options \<union> set (map (\<lambda>d. the (drawText plan d)) (d # ds)))"
      by (rule card_mono) auto
    ultimately show ?thesis using False by (simp add: sampleOptions_full)
  next
    case True
    obtain t where t: "drawText plan d = Some t" using Cons.prems(1) by auto
    let ?o = "if t \<in> set options then options else options @ [t]"
    have p: "\<forall>d\<in>set ds. drawText plan d \<noteq> None" "distinct ?o" "length ?o \<le> 4"
      using Cons.prems True by auto
    have s: "set ?o \<union> set (map (\<lambda>d. the (drawText plan d)) ds)
               = set options \<union> set (map (\<lambda>d. the (drawText plan d)) (d # ds))"
      using t by auto
    show ?thesis
      using Cons.IH [OF p] True t by (simp only: sampleOptions_step s option.case)
  qed
qed


lemma sampleOptions_no_error:
  assumes "\<forall>d\<in>set ds. drawText plan d \<noteq> None"
  shows "sampleOptions plan ds options \<noteq> Some (Inl e)"
  using assms
proof (induction ds arbitrary: options)
  case Nil
  then show ?case by simp
next
  case (Cons d ds)
  show ?case
  proof (cases "length options < 4")
    case False
    then show ?thesis by (simp add: sampleOptions_full)
  next
    case True
    obtain t where t: "drawText plan d = Some t" using Cons.prems by auto
    have "\<forall>d\<in>set ds. drawText plan d \<noteq> None" using Cons.prems by simp
    from Cons.IH [OF this] show ?thesis using True t by (simp add: sampleOptions_step)
  qed
qed

lemma card_without: "card (insert a S - {a}) = card (S - {a})"
  by simp

lemma sampleOptions_valid_draws:
  assumes "\<forall>d\<in>set ds. drawText plan d \<noteq> None"
  shows "((\<exists>opts. sampleOptions plan ds [answer] = Some (Inr opts)) \<longleftrightarrow>
            3 \<le> card (set (map (\<lambda>d. the (drawText plan d)) ds) - {answer})) \<and>
         (sampleOptions plan ds [answer] = None \<longleftrightarrow>
            card (set (map (\<lambda>d. the (drawText plan d)) ds) - {answer}) < 3)"
proof -
  let ?T = "set (map (\<lambda>d. the (drawText plan d)) ds)"
  have fin: "finite (?T - {answer})" by simp
  have "card (insert answer (?T - {answer})) = Suc (card (?T - {answer}))"
    by (rule card_insert_disjoint [OF fin]) simp
  moreover have "insert answer (?T - {answer}) = set [answer] \<union> ?T" by auto
  ultimately have c: "card (set [answer] \<union> ?T) = Suc (card (?T - {answer}))" by simp
  have r: "(\<exists>opts. sampleOptions plan ds [answer] = Some (Inr opts)) \<longleftrightarrow>
            3 \<le> card (?T - {answer})"
    using sampleOptions_returns_iff [OF assms, of "[answer]"] c by simp
  have n: "sampleOptions plan ds [answer] = None \<longleftrightarrow> \<not> (\<exists>opts. sampleOptions plan ds [answer] = Some (Inr opts))"
  proof (cases "sampleOptions plan ds [answer]")
    case None
    then show ?thesis by simp
  next
    case (Some x)
    then show ?thesis using sampleOptions_no_error [OF assms, of "[answer]"]
      by (cases x) auto
  qed
  show ?thesis using r n by auto
qed

lemma sampleOptions_possible:
  "(\<exists>ds opts. sampleOptions plan ds [answer] = Some (Inr opts)) \<longleftrightarrow>
     3 \<le> card (set (wordTexts plan) - {answer})"
proof
  assume "\<exists>ds opts. sampleOptions plan ds [answer] = Some (Inr opts)"
  then obtain ds opts where r: "sampleOptions plan ds [answer] = Some (Inr opts)" by blast
  from sampleOptions_shape [OF r]
  have sh: "length opts = 4" "distinct opts" "set opts \<subseteq> set [answer] \<union> set (wordTexts plan)"
    by simp_all
  have "card (set opts) = 4" using sh(1,2) by (simp add: distinct_card)
  then have "3 \<le> card (set opts - {answer})" by (simp add: card_Diff_singleton_if)
  moreover have "card (set opts - {answer}) \<le> card (set (wordTexts plan) - {answer})"
    by (rule card_mono) (use sh(3) in auto)
  ultimately show "3 \<le> card (set (wordTexts plan) - {answer})" by simp
next
  assume c: "3 \<le> card (set (wordTexts plan) - {answer})"
  let ?S = "set (wordTexts plan) - {answer}"
  define pick where "pick t = (SOME d. drawText plan d = Some t)" for t
  have pick: "drawText plan (pick t) = Some t" if "t \<in> set (wordTexts plan)" for t
    unfolding pick_def using pool_drawable [OF that] by (rule someI_ex)
  let ?ds = "map pick (wordTexts plan)"
  have v: "\<forall>d\<in>set ?ds. drawText plan d \<noteq> None" using pick by auto
  have "map (\<lambda>d. the (drawText plan d)) ?ds = wordTexts plan"
    using pick by (simp add: map_idI)
  then have "3 \<le> card (set (map (\<lambda>d. the (drawText plan d)) ?ds) - {answer})" using c by simp
  then have "\<exists>opts. sampleOptions plan ?ds [answer] = Some (Inr opts)"
    using sampleOptions_valid_draws [OF v, of answer] by simp
  then show "\<exists>ds opts. sampleOptions plan ds [answer] = Some (Inr opts)" by blast
qed

lemma four_texts_suffice:
  "4 \<le> card (set (wordTexts plan)) \<Longrightarrow> 3 \<le> card (set (wordTexts plan) - {answer})"
  by (auto simp: card_Diff_singleton_if)

text \<open>
  Claim C6 says that the loop terminates when the catalog has at least four distinct word
  translations and does not terminate otherwise. Neither half holds as stated. The answer
  of a pattern item is the translation of the pattern, which is no word: three distinct
  word translations then fill the four choices, and the loop returns. And with four
  distinct translations the loop returns only once the draws have produced three of them
  that differ from the answer: as long as the draws repeat, it keeps running.
\<close>

theorem three_words_suffice_for_a_pattern:
  "card (set (wordTexts
      [\<lparr>pattern = ''p1'', pattern_ko = ''k1'',
        words = [\<lparr>jp = ''neko'', ko = ''cat''\<rparr>, \<lparr>jp = ''inu'', ko = ''dog''\<rparr>,
                 \<lparr>jp = ''tori'', ko = ''bird''\<rparr>]\<rparr>])) = 3 \<and>
   qko (patternItem 0
      \<lparr>pattern = ''p1'', pattern_ko = ''k1'',
        words = [\<lparr>jp = ''neko'', ko = ''cat''\<rparr>, \<lparr>jp = ''inu'', ko = ''dog''\<rparr>,
                 \<lparr>jp = ''tori'', ko = ''bird''\<rparr>]\<rparr>) = ''k1'' \<and>
   sampleOptions
      [\<lparr>pattern = ''p1'', pattern_ko = ''k1'',
        words = [\<lparr>jp = ''neko'', ko = ''cat''\<rparr>, \<lparr>jp = ''inu'', ko = ''dog''\<rparr>,
                 \<lparr>jp = ''tori'', ko = ''bird''\<rparr>]\<rparr>]
      [(0, 0), (0, 1), (0, 2)] [''k1'']
     = Some (Inr [''k1'', ''cat'', ''dog'', ''bird'']) \<and>
   card (set (wordTexts plan4)) = 4 \<and>
   sampleOptions plan4 [(0, 1), (0, 1), (0, 1), (1, 0), (1, 0), (0, 1)] [''cat''] = None"
  by (simp add: wordTexts_def patternItem_def nthOpt_def plan4_def)

text \<open>
  Claim C6, amended. Whenever the loop returns, it returns exactly four pairwise distinct
  choices, the first of which is the answer of the item, the others word translations of
  the catalog. For draws that all hit a word, the loop returns if and only if the draws
  contain three distinct translations other than the answer, and is still running
  otherwise. Draws on which it returns exist if and only if the catalog has at least
  three distinct word translations other than the answer, which is the case when it has
  at least four distinct word translations; with fewer the loop never returns: it runs
  forever, or a draw that hits a day without words throws.
\<close>

theorem choice_loop:
  "(\<forall>opts. sampleOptions plan ds [answer] = Some (Inr opts) \<longrightarrow>
      length opts = 4 \<and> distinct opts \<and> hd opts = answer \<and> answer \<in> set opts \<and>
      set opts \<subseteq> insert answer (set (wordTexts plan))) \<and>
   ((\<forall>d\<in>set ds. drawText plan d \<noteq> None) \<longrightarrow>
      ((\<exists>opts. sampleOptions plan ds [answer] = Some (Inr opts)) \<longleftrightarrow>
         3 \<le> card (set (map (\<lambda>d. the (drawText plan d)) ds) - {answer})) \<and>
      (sampleOptions plan ds [answer] = None \<longleftrightarrow>
         card (set (map (\<lambda>d. the (drawText plan d)) ds) - {answer}) < 3)) \<and>
   ((\<exists>ds' opts. sampleOptions plan ds' [answer] = Some (Inr opts)) \<longleftrightarrow>
      3 \<le> card (set (wordTexts plan) - {answer})) \<and>
   (4 \<le> card (set (wordTexts plan)) \<longrightarrow> 3 \<le> card (set (wordTexts plan) - {answer}))"
proof (intro conjI allI impI)
  fix opts assume r: "sampleOptions plan ds [answer] = Some (Inr opts)"
  from sampleOptions_shape [OF r]
  have sh: "length opts = 4" "distinct opts" "hd opts = answer"
    "set opts \<subseteq> set [answer] \<union> set (wordTexts plan)"
    by simp_all
  show "length opts = 4" "distinct opts" "hd opts = answer" by (rule sh)+
  have "opts \<noteq> []" using sh(1) by auto
  then show "answer \<in> set opts" using sh(3) hd_in_set by blast
  show "set opts \<subseteq> insert answer (set (wordTexts plan))" using sh(4) by simp
next
  assume v: "\<forall>d\<in>set ds. drawText plan d \<noteq> None"
  show "(\<exists>opts. sampleOptions plan ds [answer] = Some (Inr opts)) \<longleftrightarrow>
         3 \<le> card (set (map (\<lambda>d. the (drawText plan d)) ds) - {answer})"
    using sampleOptions_valid_draws [OF v] by (rule conjunct1)
  show "sampleOptions plan ds [answer] = None \<longleftrightarrow>
         card (set (map (\<lambda>d. the (drawText plan d)) ds) - {answer}) < 3"
    using sampleOptions_valid_draws [OF v] by (rule conjunct2)
next
  show "(\<exists>ds' opts. sampleOptions plan ds' [answer] = Some (Inr opts)) \<longleftrightarrow>
      3 \<le> card (set (wordTexts plan) - {answer})"
    by (rule sampleOptions_possible)
next
  assume "4 \<le> card (set (wordTexts plan))"
  then show "3 \<le> card (set (wordTexts plan) - {answer})" by (rule four_texts_suffice)
qed


theorem choice_loop_witness:
  "sampleOptions plan4 [(0, 1), (0, 1), (1, 0), (0, 0), (1, 1)] [''cat'']
     = Some (Inr [''cat'', ''dog'', ''bird'', ''fish'']) \<and>
   3 \<le> card (set (map (\<lambda>d. the (drawText plan4 d)) [(0, 1), (0, 1), (1, 0), (0, 0), (1, 1)])
               - {''cat''}) \<and>
   3 \<le> card (set (wordTexts plan4) - {''cat''})"
proof -
  have e: "sampleOptions plan4 [(0, 1), (0, 1), (1, 0), (0, 0), (1, 1)] [''cat'']
     = Some (Inr [''cat'', ''dog'', ''bird'', ''fish''])"
    by (simp add: plan4_def nthOpt_def)
  have v: "\<forall>d\<in>set [(0, 1), (0, 1), (1, 0), (0, 0), (1, 1)]. drawText plan4 d \<noteq> None"
    by (simp add: plan4_def drawText_def nthOpt_def)
  have w: "4 \<le> card (set (wordTexts plan4))"
    by (simp add: plan4_def wordTexts_def)
  from choice_loop [of plan4 "[(0, 1), (0, 1), (1, 0), (0, 0), (1, 1)]" "''cat''"] e v w
  show ?thesis by blast
qed

section \<open>Properties of the calendar\<close>

subsection \<open>Day numbers and civil dates\<close>

lemma daysBeforeYear_1970: "daysBeforeYear 1970 = 0"
  by (simp add: daysBeforeYear_def leapsBefore_def)

lemma div_pred:
  assumes "0 < (k::int)"
  shows "(y - 1) div k = y div k - (if y mod k = 0 then 1 else 0)"
proof (cases "y mod k = 0")
  case True
  have "y = k * (y div k) + y mod k" by simp
  then have "y = k * (y div k)" using True by simp
  then have "y - 1 = k * (y div k - 1) + (k - 1)" by (simp add: algebra_simps)
  then have "(y - 1) div k = y div k - 1"
    using assms by (intro int_div_pos_eq [of _ k _ "k - 1"]) auto
  then show ?thesis using True by simp
next
  case False
  have m: "0 \<le> y mod k" "y mod k < k" using assms by simp_all
  have "y - 1 = k * (y div k) + (y mod k - 1)" by simp
  then have "(y - 1) div k = y div k"
    using assms m False by (intro int_div_pos_eq [of _ k _ "y mod k - 1"]) auto
  then show ?thesis using False by simp
qed

lemma mod_400_100: "(y::int) mod 400 = 0 \<Longrightarrow> y mod 100 = 0"
  using mod_mod_cancel [of 100 400 y] by simp

lemma mod_100_4: "(y::int) mod 100 = 0 \<Longrightarrow> y mod 4 = 0"
  using mod_mod_cancel [of 4 100 y] by simp

lemma leapsBefore_Suc: "leapsBefore (y + 1) = leapsBefore y + (if isLeap y then 1 else 0)"
proof -
  have p: "leapsBefore y = y div 4 - (if y mod 4 = 0 then 1 else 0)
          - (y div 100 - (if y mod 100 = 0 then 1 else 0))
          + (y div 400 - (if y mod 400 = 0 then 1 else 0))"
    unfolding leapsBefore_def
    by (simp only: div_pred [of 4] div_pred [of 100] div_pred [of 400] zero_less_numeral)
  have n: "leapsBefore (y + 1) = y div 4 - y div 100 + y div 400"
    by (simp add: leapsBefore_def)
  show ?thesis
  proof (cases "y mod 4 = 0")
    case False
    then have "y mod 100 \<noteq> 0" "y mod 400 \<noteq> 0"
      using mod_100_4 [of y] mod_400_100 [of y] by auto
    then show ?thesis using False by (simp add: p n isLeap_def)
  next
    case m4: True
    show ?thesis
    proof (cases "y mod 100 = 0")
      case False
      then have "y mod 400 \<noteq> 0" using mod_400_100 [of y] by auto
      then show ?thesis using False m4 by (simp add: p n isLeap_def)
    next
      case True
      then show ?thesis using m4 by (simp add: p n isLeap_def)
    qed
  qed
qed

lemma daysBeforeYear_Suc: "daysBeforeYear (y + 1) = daysBeforeYear y + yearLength y"
  by (simp add: daysBeforeYear_def leapsBefore_Suc yearLength_def)

lemma leapsBefore_400: "leapsBefore (y + 400 * q) = leapsBefore y + 97 * q"
proof -
  have a: "(y + 400 * q - 1) div 4 = (y - 1) div 4 + 100 * q"
    using div_mult_self2 [of 4 "y - 1" "100 * q"] by (simp add: algebra_simps)
  have b: "(y + 400 * q - 1) div 100 = (y - 1) div 100 + 4 * q"
    using div_mult_self2 [of 100 "y - 1" "4 * q"] by (simp add: algebra_simps)
  have c: "(y + 400 * q - 1) div 400 = (y - 1) div 400 + q"
    using div_mult_self2 [of 400 "y - 1" q] by (simp add: algebra_simps)
  show ?thesis by (simp only: leapsBefore_def a b c)
qed

lemma daysBeforeYear_400: "daysBeforeYear (y + 400 * q) = daysBeforeYear y + 146097 * q"
  unfolding daysBeforeYear_def leapsBefore_400 by (simp add: algebra_simps)

lemma yearLength_pos: "0 < yearLength y"
  by (simp add: yearLength_def)

lemma yearOf_sound:
  "0 \<le> r \<Longrightarrow> yearOf y r = (y', r') \<Longrightarrow>
     daysBeforeYear y' + r' = daysBeforeYear y + r \<and> 0 \<le> r' \<and> r' < yearLength y'"
proof (induction y r rule: yearOf.induct)
  case (1 y r)
  show ?case
  proof (cases "yearLength y \<le> r")
    case True
    then have "yearOf (y + 1) (r - yearLength y) = (y', r')"
      using "1.prems"(2) by (subst (asm) yearOf.simps) simp
    from "1.IH" [OF True _ this] True
    show ?thesis by (simp add: daysBeforeYear_Suc)
  next
    case False
    then have "y' = y" "r' = r" using "1.prems"(2) by (subst (asm) yearOf.simps, simp)+
    then show ?thesis using False "1.prems"(1) by simp
  qed
qed

lemma daysBeforeYear_mono: "y \<le> y' \<Longrightarrow> daysBeforeYear y \<le> daysBeforeYear y'"
proof (induction y' rule: int_ge_induct)
  case base
  then show ?case by simp
next
  case (step i)
  then show ?case using yearLength_pos [of i] by (simp add: daysBeforeYear_Suc)
qed

lemma daysBeforeYear_next: "y < y' \<Longrightarrow> daysBeforeYear y + yearLength y \<le> daysBeforeYear y'"
  using daysBeforeYear_mono [of "y + 1" y'] by (simp add: daysBeforeYear_Suc)


lemma daysBeforeMonth_Suc:
  "1 \<le> m \<Longrightarrow> daysBeforeMonth leap (Suc m) = daysBeforeMonth leap m + monthLength leap m"
  by simp

lemma monthLength_pos: "0 < monthLength leap m"
  by (simp add: monthLength_def)

lemma daysBeforeMonth_12: "daysBeforeMonth leap 12 = (if leap then 335 else 334)"
  by (simp add: eval_nat_numeral monthLength_def)

lemma monthOf_sound:
  "1 \<le> m \<Longrightarrow> m \<le> 12 \<Longrightarrow> 0 \<le> r \<Longrightarrow>
   daysBeforeMonth leap m + r < (if leap then 366 else 365) \<Longrightarrow>
   monthOf leap m r = (m', d) \<Longrightarrow>
     daysBeforeMonth leap m' + d - 1 = daysBeforeMonth leap m + r \<and>
     1 \<le> m' \<and> m' \<le> 12 \<and> 1 \<le> d \<and> d \<le> monthLength leap m'"
proof (induction leap m r rule: monthOf.induct)
  case (1 leap m r)
  show ?case
  proof (cases "m < 12 \<and> monthLength leap m \<le> r")
    case True
    then have rec: "monthOf leap (m + 1) (r - monthLength leap m) = (m', d)"
      using "1.prems"(5) by (subst (asm) monthOf.simps) simp
    have s: "daysBeforeMonth leap (m + 1) = daysBeforeMonth leap m + monthLength leap m"
      using daysBeforeMonth_Suc [OF "1.prems"(1)] by simp
    have "daysBeforeMonth leap (m + 1) + (r - monthLength leap m) < (if leap then 366 else 365)"
      using "1.prems"(4) s by simp
    from "1.IH" [OF True _ _ _ this rec] True s show ?thesis by simp
  next
    case False
    then have e: "m' = m" "d = r + 1"
      using "1.prems"(5) by (subst (asm) monthOf.simps, simp)+
    show ?thesis
    proof (cases "m < 12")
      case True
      then show ?thesis using False e "1.prems" by simp
    next
      case f: False
      then have "m = 12" using "1.prems"(2) by simp
      then show ?thesis using e "1.prems" by (simp add: daysBeforeMonth_12 monthLength_def split: if_splits)
    qed
  qed
qed

lemma daysBeforeMonth_mono:
  assumes "1 \<le> a" "a \<le> b"
  shows "daysBeforeMonth leap a \<le> daysBeforeMonth leap b"
  using assms(2,1)
proof (induction b rule: dec_induct)
  case base
  then show ?case by simp
next
  case (step n)
  have n: "1 \<le> n" using step by simp
  have "daysBeforeMonth leap a \<le> daysBeforeMonth leap n" using step by simp
  then show ?case using monthLength_pos [of leap n]
    by (simp only: daysBeforeMonth_Suc [OF n])
qed

lemma daysBeforeMonth_next:
  "1 \<le> a \<Longrightarrow> a < b \<Longrightarrow> daysBeforeMonth leap a + monthLength leap a \<le> daysBeforeMonth leap b"
  using daysBeforeMonth_mono [of "Suc a" b leap] by (simp add: daysBeforeMonth_Suc)

lemma block_order:
  fixes B L :: "'k::linorder \<Rightarrow> int"
  assumes nxt: "\<And>a b. P a \<Longrightarrow> a < b \<Longrightarrow> B a + L a \<le> B b"
    and "P k" "P k'" "0 \<le> r" "r < L k" "0 \<le> r'" "r' < L k'"
  shows "B k + r \<le> B k' + r' \<longleftrightarrow> k < k' \<or> (k = k' \<and> r \<le> r')"
proof (cases k k' rule: linorder_cases)
  case less
  have "B k + r < B k' + r'" using nxt [OF assms(2) less] assms(4-7) by linarith
  then show ?thesis using less by simp
next
  case equal
  then show ?thesis by simp
next
  case greater
  have "B k' + r' < B k + r" using nxt [OF assms(3) greater] assms(4-7) by linarith
  then show ?thesis using greater by auto
qed


lemma civil_sound:
  assumes "civil n = (y, m, d)"
  shows "n = daysBeforeYear y + (daysBeforeMonth (isLeap y) m + (d - 1)) \<and>
         1 \<le> m \<and> m \<le> 12 \<and> 1 \<le> d \<and> d \<le> monthLength (isLeap y) m \<and>
         daysBeforeMonth (isLeap y) m + (d - 1) < yearLength y"
proof -
  obtain y0 r where yr: "yearOf (1970 + 400 * (n div 146097)) (n mod 146097) = (y0, r)"
    by (cases "yearOf (1970 + 400 * (n div 146097)) (n mod 146097)")
  obtain m0 d0 where md: "monthOf (isLeap y0) 1 r = (m0, d0)"
    by (cases "monthOf (isLeap y0) 1 r")
  have c: "civil n = (y0, m0, d0)" by (simp only: civil_def Let_def yr md prod.case)
  then have e: "y0 = y" "m0 = m" "d0 = d" using assms by simp_all
  have "0 \<le> n mod 146097" by simp
  from yearOf_sound [OF this yr]
  have ys: "daysBeforeYear y0 + r = daysBeforeYear (1970 + 400 * (n div 146097)) + n mod 146097"
    and r: "0 \<le> r" "r < yearLength y0"
    by simp_all
  have "daysBeforeYear (1970 + 400 * (n div 146097)) = 146097 * (n div 146097)"
    by (simp only: daysBeforeYear_400 daysBeforeYear_1970)
  then have n: "daysBeforeYear y0 + r = n" using ys by simp
  have "daysBeforeMonth (isLeap y0) 1 + r < (if isLeap y0 then 366 else 365)"
    using r(2) by (simp add: yearLength_def)
  from monthOf_sound [OF _ _ r(1) this md]
  have ms: "daysBeforeMonth (isLeap y0) m0 + d0 - 1 = r" "1 \<le> m0" "m0 \<le> 12" "1 \<le> d0"
    "d0 \<le> monthLength (isLeap y0) m0"
    by simp_all
  show ?thesis using n ms r unfolding e by simp
qed

lemma civil_le:
  assumes "civil a = (y, m, d)" "civil b = (y', m', d')"
  shows "a \<le> b \<longleftrightarrow> y < y' \<or> (y = y' \<and> (m < m' \<or> (m = m' \<and> d \<le> d')))"
proof -
  let ?r = "daysBeforeMonth (isLeap y) m + (d - 1)"
  let ?r' = "daysBeforeMonth (isLeap y') m' + (d' - 1)"
  note sa = civil_sound [OF assms(1)] and sb = civil_sound [OF assms(2)]
  have a: "a = daysBeforeYear y + ?r" and b: "b = daysBeforeYear y' + ?r'"
    using sa sb by simp_all
  have dm: "0 \<le> daysBeforeMonth (isLeap y) m" "0 \<le> daysBeforeMonth (isLeap y') m'"
    using daysBeforeMonth_mono [of 1 m "isLeap y"] daysBeforeMonth_mono [of 1 m' "isLeap y'"] sa sb
    by simp_all
  have years: "daysBeforeYear y + ?r \<le> daysBeforeYear y' + ?r' \<longleftrightarrow> y < y' \<or> (y = y' \<and> ?r \<le> ?r')"
  proof (rule block_order [where P = "\<lambda>_. True" and L = yearLength])
    show "daysBeforeYear u + yearLength u \<le> daysBeforeYear v" if "u < v" for u v
      using that by (rule daysBeforeYear_next)
    show "0 \<le> ?r" "0 \<le> ?r'" using sa sb dm by simp_all
    show "?r < yearLength y" "?r' < yearLength y'" using sa sb by simp_all
  qed simp_all
  have months: "?r \<le> ?r' \<longleftrightarrow> m < m' \<or> (m = m' \<and> d \<le> d')" if "y = y'"
  proof -
    have "daysBeforeMonth (isLeap y) m + (d - 1) \<le> daysBeforeMonth (isLeap y) m' + (d' - 1)
            \<longleftrightarrow> m < m' \<or> (m = m' \<and> d - 1 \<le> d' - 1)"
    proof (rule block_order [where P = "\<lambda>k. 1 \<le> k" and L = "monthLength (isLeap y)"])
      show "daysBeforeMonth (isLeap y) u + monthLength (isLeap y) u \<le> daysBeforeMonth (isLeap y) v"
        if "1 \<le> u" "u < v" for u v
        using that by (rule daysBeforeMonth_next)
      show "1 \<le> m" "1 \<le> m'" using sa sb by simp_all
      show "0 \<le> d - 1" "0 \<le> d' - 1" using sa sb by simp_all
      show "d - 1 < monthLength (isLeap y) m" "d' - 1 < monthLength (isLeap y) m'"
        using sa sb that by simp_all
    qed
    moreover have "d - 1 \<le> d' - 1 \<longleftrightarrow> d \<le> d'" by auto
    ultimately show ?thesis using that by (simp only:)
  qed
  show ?thesis using years months a b by auto
qed

text \<open>
  \<open>civil\<close> is the inverse of the day count of the Gregorian calendar: it gives back every
  valid date from its day number.
\<close>

lemma civil_examples:
  "civil 0 = (1970, 1, 1)"
  "civil (- 1) = (1969, 12, 31)"
  "civil 11016 = (2000, 2, 29)"
  "civil 11017 = (2000, 3, 1)"
  "civil 47540 = (2100, 2, 28)"
  "civil 47541 = (2100, 3, 1)"
  "civil (- 354285) = (1000, 1, 1)"
  "civil 2932896 = (9999, 12, 31)"
  by (simp_all add: civil_def yearOf.simps monthOf.simps isLeap_def yearLength_def monthLength_def)

lemma day_of_year_bound:
  assumes "1 \<le> m" "m \<le> 12" "1 \<le> d" "d \<le> monthLength leap m"
  shows "daysBeforeMonth leap m + (d - 1) < (if leap then 366 else 365)"
proof (cases "m = 12")
  case True
  then show ?thesis using assms by (simp add: daysBeforeMonth_12 monthLength_def)
next
  case False
  then have "m < 12" using assms(2) by simp
  from daysBeforeMonth_next [OF assms(1) this, of leap]
  show ?thesis using assms(4) by (simp add: daysBeforeMonth_12 split: if_splits)
qed

lemma civil_of_date:
  assumes "1 \<le> m" "m \<le> 12" "1 \<le> d" "d \<le> monthLength (isLeap y) m"
  shows "civil (daysBeforeYear y + (daysBeforeMonth (isLeap y) m + (d - 1))) = (y, m, d)"
proof -
  let ?n = "daysBeforeYear y + (daysBeforeMonth (isLeap y) m + (d - 1))"
  obtain y' m' d' where c: "civil ?n = (y', m', d')" by (cases "civil ?n")
  note s = civil_sound [OF c]
  let ?r = "daysBeforeMonth (isLeap y) m + (d - 1)"
  let ?r' = "daysBeforeMonth (isLeap y') m' + (d' - 1)"
  have r: "0 \<le> ?r" "?r < yearLength y"
    using daysBeforeMonth_mono [of 1 m "isLeap y"] assms day_of_year_bound [OF assms]
    by (simp_all add: yearLength_def)
  have r': "0 \<le> ?r'" "?r' < yearLength y'"
    using daysBeforeMonth_mono [of 1 m' "isLeap y'"] s by simp_all
  have nxt: "daysBeforeYear u + yearLength u \<le> daysBeforeYear v" if "True" "u < v" for u v
    using that(2) by (rule daysBeforeYear_next)
  have le1: "daysBeforeYear y + ?r \<le> daysBeforeYear y' + ?r' \<longleftrightarrow> y < y' \<or> (y = y' \<and> ?r \<le> ?r')"
    by (rule block_order [where P = "\<lambda>_. True" and L = yearLength, OF nxt TrueI TrueI r r'])
  have le2: "daysBeforeYear y' + ?r' \<le> daysBeforeYear y + ?r \<longleftrightarrow> y' < y \<or> (y' = y \<and> ?r' \<le> ?r)"
    by (rule block_order [where P = "\<lambda>_. True" and L = yearLength, OF nxt TrueI TrueI r' r])
  have n: "daysBeforeYear y + ?r = daysBeforeYear y' + ?r'" using s by simp
  have y: "y' = y" and rr: "?r' = ?r" using le1 le2 n by auto
  have mn: "daysBeforeMonth (isLeap y) u + monthLength (isLeap y) u \<le> daysBeforeMonth (isLeap y) v"
    if "1 \<le> u" "u < v" for u v
    using that by (rule daysBeforeMonth_next)
  have d0: "0 \<le> d - 1" "d - 1 < monthLength (isLeap y) m" using assms by simp_all
  have d0': "0 \<le> d' - 1" "d' - 1 < monthLength (isLeap y) m'" using s y by simp_all
  have m1: "1 \<le> m'" using s by simp
  have l1: "daysBeforeMonth (isLeap y) m + (d - 1) \<le> daysBeforeMonth (isLeap y) m' + (d' - 1)
              \<longleftrightarrow> m < m' \<or> (m = m' \<and> d - 1 \<le> d' - 1)"
    by (rule block_order [where P = "\<lambda>k. 1 \<le> k" and L = "monthLength (isLeap y)",
          OF mn assms(1) m1 d0 d0'])
  have l2: "daysBeforeMonth (isLeap y) m' + (d' - 1) \<le> daysBeforeMonth (isLeap y) m + (d - 1)
              \<longleftrightarrow> m' < m \<or> (m' = m \<and> d' - 1 \<le> d - 1)"
    by (rule block_order [where P = "\<lambda>k. 1 \<le> k" and L = "monthLength (isLeap y)",
          OF mn m1 assms(1) d0' d0])
  have "m' = m \<and> d' = d" using l1 l2 rr y by auto
  then show ?thesis using c y by simp
qed

subsection \<open>Comparing formatted dates\<close>

lemma of_char_digitChar: "n < 10 \<Longrightarrow> (of_char (digitChar n) :: nat) = 48 + n"
  using digit_range [of n] by (auto simp: digitChar_def)

lemma digitChar_inj:
  assumes "a < 10" "b < 10"
  shows "digitChar a = digitChar b \<longleftrightarrow> a = b"
proof
  assume "digitChar a = digitChar b"
  then have "(of_char (digitChar a) :: nat) = of_char (digitChar b)" by (rule arg_cong)
  then show "a = b"
    by (simp only: of_char_digitChar [OF assms(1)] of_char_digitChar [OF assms(2)] add_left_cancel)
qed simp

lemma digitChar_not_dash:
  assumes "n < 10"
  shows "digitChar n \<noteq> CHR ''-''"
proof
  assume "digitChar n = CHR ''-''"
  then have "(of_char (digitChar n) :: nat) = of_char (CHR ''-'')" by (rule arg_cong)
  then have "48 + n = (45::nat)" by (simp add: of_char_digitChar [OF assms])
  then show False by simp
qed

lemma strLe_refl: "strLe s s"
  by (induction s) simp_all

lemma strLe_append_same: "strLe (p @ a) (p @ b) = strLe a b"
  by (induction p) simp_all

lemma strLe_append:
  "length p = length q \<Longrightarrow> strLe (p @ a) (q @ b) = (if p = q then strLe a b else strLe p q)"
proof (induction p arbitrary: q)
  case Nil
  then show ?case by simp
next
  case (Cons x p)
  then obtain y q' where q: "q = y # q'" by (cases q) auto
  then show ?case using Cons by auto
qed

lemma strLe_digit:
  "a < 10 \<Longrightarrow> b < 10 \<Longrightarrow> strLe [digitChar a] [digitChar b] \<longleftrightarrow> a \<le> b"
  by (auto simp: digitChar_inj of_char_digitChar)

lemma length_showNat_one: "length (showNat n) = 1 \<longleftrightarrow> n < 10"
proof (cases "n < 10")
  case True
  then show ?thesis by (subst showNat.simps) simp
next
  case False
  then have "showNat n = showNat (n div 10) @ [digitChar (n mod 10)]"
    by (subst showNat.simps) simp
  then show ?thesis using showNat_not_Nil [of "n div 10"] False by simp
qed

lemma decimal_order:
  fixes qa ra qb rb :: nat
  assumes "ra < 10" "rb < 10"
  shows "10 * qa + ra \<le> 10 * qb + rb \<longleftrightarrow> (if qa = qb then ra \<le> rb else qa \<le> qb)"
    and "10 * qa + ra = 10 * qb + rb \<longleftrightarrow> qa = qb \<and> ra = rb"
  using assms by (cases qa qb rule: linorder_cases; simp)+

lemma showNat_order:
  "length (showNat a) = length (showNat b) \<Longrightarrow>
     (strLe (showNat a) (showNat b) \<longleftrightarrow> a \<le> b) \<and> (showNat a = showNat b \<longleftrightarrow> a = b)"
proof (induction a arbitrary: b rule: showNat.induct)
  case (1 a)
  show ?case
  proof (cases "a < 10")
    case True
    then have sa: "showNat a = [digitChar a]" by (subst showNat.simps) simp
    then have "b < 10" using "1.prems" length_showNat_one [of b] by simp
    then have sb: "showNat b = [digitChar b]" by (subst showNat.simps) simp
    have "strLe [digitChar a] [digitChar b] \<longleftrightarrow> a \<le> b"
      using True \<open>b < 10\<close> by (rule strLe_digit)
    moreover have "digitChar a = digitChar b \<longleftrightarrow> a = b"
      using True \<open>b < 10\<close> by (rule digitChar_inj)
    ultimately show ?thesis unfolding sa sb by simp
  next
    case False
    then have sa: "showNat a = showNat (a div 10) @ [digitChar (a mod 10)]"
      by (subst showNat.simps) simp
    have "\<not> b < 10" using "1.prems" length_showNat_one [of a] length_showNat_one [of b] False
      by simp
    then have sb: "showNat b = showNat (b div 10) @ [digitChar (b mod 10)]"
      by (subst showNat.simps) simp
    have len: "length (showNat (a div 10)) = length (showNat (b div 10))"
      using "1.prems" unfolding sa sb by simp
    note ih = "1.IH" [OF False len]
    have dg: "strLe [digitChar (a mod 10)] [digitChar (b mod 10)] \<longleftrightarrow> a mod 10 \<le> b mod 10"
      by (rule strLe_digit) simp_all
    have di: "digitChar (a mod 10) = digitChar (b mod 10) \<longleftrightarrow> a mod 10 = b mod 10"
      by (rule digitChar_inj) simp_all
    have le: "strLe (showNat a) (showNat b) \<longleftrightarrow>
                (if a div 10 = b div 10 then a mod 10 \<le> b mod 10 else a div 10 \<le> b div 10)"
      unfolding sa sb strLe_append [OF len] dg using ih by simp
    have eq: "showNat a = showNat b \<longleftrightarrow> a div 10 = b div 10 \<and> a mod 10 = b mod 10"
      unfolding sa sb append1_eq_conv di using ih by simp
    have "a \<le> b \<longleftrightarrow> 10 * (a div 10) + a mod 10 \<le> 10 * (b div 10) + b mod 10" by simp
    then have ord: "a \<le> b \<longleftrightarrow>
        (if a div 10 = b div 10 then a mod 10 \<le> b mod 10 else a div 10 \<le> b div 10)"
      by (simp only: decimal_order(1) [of "a mod 10" "b mod 10" "a div 10" "b div 10"] pos_mod_bound mod_less_divisor zero_less_numeral)
    have "a = b \<longleftrightarrow> 10 * (a div 10) + a mod 10 = 10 * (b div 10) + b mod 10" by simp
    then have inj: "a = b \<longleftrightarrow> a div 10 = b div 10 \<and> a mod 10 = b mod 10"
      by (simp only: decimal_order(2) [of "a mod 10" "b mod 10" "a div 10" "b div 10"] mod_less_divisor zero_less_numeral)
    show ?thesis using le eq ord inj by simp
  qed
qed

lemma length_showNat:
  "length (showNat n) = (if n < 10 then 1 else Suc (length (showNat (n div 10))))"
  by (subst showNat.simps) simp

lemma length_showNat_4: "1000 \<le> n \<Longrightarrow> n \<le> 9999 \<Longrightarrow> length (showNat n) = 4"
proof -
  assume a: "1000 \<le> n" "n \<le> 9999"
  have "\<not> n < 10" "\<not> n div 10 < 10" "\<not> n div 10 div 10 < 10" "n div 10 div 10 div 10 < 10"
    using a by simp_all
  then show ?thesis
    by (simp add: length_showNat [of n] length_showNat [of "n div 10"]
        length_showNat [of "n div 10 div 10"] length_showNat [of "n div 10 div 10 div 10"])
qed

lemma showNat_no_dash: "CHR ''-'' \<notin> set (showNat n)"
proof (induction n rule: showNat.induct)
  case (1 n)
  show ?case
  proof (cases "n < 10")
    case True
    then have "showNat n = [digitChar n]" by (subst showNat.simps) simp
    then show ?thesis using digitChar_not_dash [OF True] by auto
  next
    case False
    then have "showNat n = showNat (n div 10) @ [digitChar (n mod 10)]"
      by (subst showNat.simps) simp
    moreover have "digitChar (n mod 10) \<noteq> CHR ''-''" by (rule digitChar_not_dash) simp
    ultimately show ?thesis using "1.IH" [OF False] by auto
  qed
qed

lemma showNat_inj: "showNat a = showNat b \<longleftrightarrow> a = b"
proof
  assume e: "showNat a = showNat b"
  then have "length (showNat a) = length (showNat b)" by simp
  from showNat_order [OF this] e show "a = b" by simp
qed simp

lemma showYear_eq:
  assumes "1 \<le> y" "1 \<le> y'"
  shows "showYear y = showYear y' \<longleftrightarrow> y = y'"
  using assms by (simp add: showYear_def showNat_inj eq_nat_nat_iff)

lemma showYear_order:
  assumes "1 \<le> y" "1 \<le> y'" "length (showYear y) = length (showYear y')"
  shows "strLe (showYear y) (showYear y') \<longleftrightarrow> y \<le> y'"
proof -
  have s: "showYear y = showNat (nat y)" "showYear y' = showNat (nat y')"
    using assms by (simp_all add: showYear_def)
  have e: "length (showNat (nat y)) = length (showNat (nat y'))" using assms(3) s by simp
  show ?thesis using showNat_order [OF e] assms(1,2) unfolding s by (simp add: nat_le_eq_zle)
qed

lemma showYear_no_dash: "CHR ''-'' \<notin> set (showYear y)"
  by (simp add: showYear_def showNat_no_dash)

lemma showYear_four_digits: "1000 \<le> y \<Longrightarrow> y \<le> 9999 \<Longrightarrow> length (showYear y) = 4"
  by (simp add: showYear_def length_showNat_4)

lemma pad2_digits: "n < 100 \<Longrightarrow> pad2 n = [digitChar (n div 10), digitChar (n mod 10)]"
proof (cases "n < 10")
  case True
  then have "showNat n = [digitChar n]" by (subst showNat.simps) simp
  then show ?thesis using True by (simp add: pad2_def digitChar_def)
next
  case False
  assume "n < 100"
  then have "n div 10 < 10" by simp
  then have "showNat (n div 10) = [digitChar (n div 10)]" by (subst showNat.simps) simp
  moreover have "showNat n = showNat (n div 10) @ [digitChar (n mod 10)]"
    using False by (subst showNat.simps) simp
  ultimately show ?thesis using False by (simp add: pad2_def)
qed

lemma pad2_order:
  assumes "a < 100" "b < 100"
  shows "length (pad2 a) = length (pad2 b)"
    and "strLe (pad2 a) (pad2 b) \<longleftrightarrow> a \<le> b"
    and "pad2 a = pad2 b \<longleftrightarrow> a = b"
proof -
  have da: "a div 10 < 10" "a mod 10 < 10" and db: "b div 10 < 10" "b mod 10 < 10"
    using assms by simp_all
  have pa: "pad2 a = [digitChar (a div 10)] @ [digitChar (a mod 10)]"
    and pb: "pad2 b = [digitChar (b div 10)] @ [digitChar (b mod 10)]"
    using assms by (simp_all add: pad2_digits)
  show "length (pad2 a) = length (pad2 b)" unfolding pa pb by simp
  have l: "length [digitChar (a div 10)] = length [digitChar (b div 10)]" by simp
  have i: "[digitChar (a div 10)] = [digitChar (b div 10)] \<longleftrightarrow> a div 10 = b div 10"
    using digitChar_inj [OF da(1) db(1)] by simp
  have le: "strLe (pad2 a) (pad2 b) \<longleftrightarrow>
          (if a div 10 = b div 10 then a mod 10 \<le> b mod 10 else a div 10 \<le> b div 10)"
    unfolding pa pb strLe_append [OF l] i strLe_digit [OF da(2) db(2)] strLe_digit [OF da(1) db(1)]
    by (rule refl)
  have "a \<le> b \<longleftrightarrow> 10 * (a div 10) + a mod 10 \<le> 10 * (b div 10) + b mod 10" by simp
  then have ord: "a \<le> b \<longleftrightarrow>
        (if a div 10 = b div 10 then a mod 10 \<le> b mod 10 else a div 10 \<le> b div 10)"
    by (simp only: decimal_order(1) [OF da(2) db(2)])
  show "strLe (pad2 a) (pad2 b) \<longleftrightarrow> a \<le> b" using le ord by simp
  have eq: "pad2 a = pad2 b \<longleftrightarrow> a div 10 = b div 10 \<and> a mod 10 = b mod 10"
    unfolding pa pb by (simp add: digitChar_inj [OF da(1) db(1)] digitChar_inj [OF da(2) db(2)])
  have "a = b \<longleftrightarrow> 10 * (a div 10) + a mod 10 = 10 * (b div 10) + b mod 10" by simp
  then have inj: "a = b \<longleftrightarrow> a div 10 = b div 10 \<and> a mod 10 = b mod 10"
    by (simp only: decimal_order(2) [OF da(2) db(2)])
  show "pad2 a = pad2 b \<longleftrightarrow> a = b" using eq inj by simp
qed


lemma monthLength_le: "monthLength leap m \<le> 31"
  by (simp add: monthLength_def)

lemma year_prefix:
  assumes "showYear y @ CHR ''-'' # r = showYear y' @ CHR ''-'' # r'"
  shows "showYear y = showYear y' \<and> r = r'"
proof -
  have t: "takeWhile (\<lambda>c. c \<noteq> CHR ''-'') (showYear u @ CHR ''-'' # v) = showYear u" for u v
    using showYear_no_dash [of u] by (subst takeWhile_append2) auto
  have "takeWhile (\<lambda>c. c \<noteq> CHR ''-'') (showYear y @ CHR ''-'' # r)
          = takeWhile (\<lambda>c. c \<noteq> CHR ''-'') (showYear y' @ CHR ''-'' # r')"
    using assms by (rule arg_cong)
  then have "showYear y = showYear y'" by (simp only: t)
  then show ?thesis using assms by simp
qed

lemma formatYMD_eq:
  assumes "1 \<le> y" "m \<le> 12" "0 \<le> d" "d \<le> 31"
    and "1 \<le> y'" "m' \<le> 12" "0 \<le> d'" "d' \<le> 31"
  shows "formatYMD (y, m, d) = formatYMD (y', m', d') \<longleftrightarrow> y = y' \<and> m = m' \<and> d = d'"
proof
  assume e: "formatYMD (y, m, d) = formatYMD (y', m', d')"
  have m: "m < 100" "m' < 100" using assms by simp_all
  note mo = pad2_order [OF m]
  have d: "nat d < 100" "nat d' < 100" using assms by simp_all
  note do = pad2_order [OF d]
  have de: "nat d = nat d' \<longleftrightarrow> d = d'" using assms by (simp add: eq_nat_nat_iff)
  have "showYear y @ CHR ''-'' # (pad2 m @ CHR ''-'' # pad2 (nat d))
          = showYear y' @ CHR ''-'' # (pad2 m' @ CHR ''-'' # pad2 (nat d'))"
    using e by (simp add: formatYMD_def)
  from year_prefix [OF this]
  have y: "showYear y = showYear y'"
    and r: "pad2 m @ CHR ''-'' # pad2 (nat d) = pad2 m' @ CHR ''-'' # pad2 (nat d')"
    by simp_all
  have "pad2 m = pad2 m' \<and> pad2 (nat d) = pad2 (nat d')" using r mo(1) by simp
  then show "y = y' \<and> m = m' \<and> d = d'"
    using y showYear_eq [OF assms(1,5)] mo(3) do(3) de by simp
qed simp

lemma formatYMD_le:
  assumes "1 \<le> y" "m \<le> 12" "0 \<le> d" "d \<le> 31"
    and "1 \<le> y'" "m' \<le> 12" "0 \<le> d'" "d' \<le> 31"
    and "length (showYear y) = length (showYear y')"
  shows "strLe (formatYMD (y, m, d)) (formatYMD (y', m', d')) \<longleftrightarrow>
           y < y' \<or> (y = y' \<and> (m < m' \<or> (m = m' \<and> d \<le> d')))"
proof -
  note yl = assms(9)
  note yo = showYear_order [OF assms(1,5) yl]
  note ye = showYear_eq [OF assms(1,5)]
  have m: "m < 100" "m' < 100" using assms by simp_all
  note mo = pad2_order [OF m]
  have d: "nat d < 100" "nat d' < 100" using assms by simp_all
  note do = pad2_order [OF d]
  have dl: "nat d \<le> nat d' \<longleftrightarrow> d \<le> d'" using assms by (simp add: nat_le_eq_zle)
  have f: "formatYMD (y, m, d) = showYear y @ (''-'' @ (pad2 m @ (''-'' @ pad2 (nat d))))"
    "formatYMD (y', m', d') = showYear y' @ (''-'' @ (pad2 m' @ (''-'' @ pad2 (nat d'))))"
    by (simp_all add: formatYMD_def)
  have "strLe (formatYMD (y, m, d)) (formatYMD (y', m', d')) \<longleftrightarrow>
          (if y = y' then (if m = m' then d \<le> d' else m \<le> m') else y \<le> y')"
    unfolding f strLe_append [OF yl] strLe_append_same strLe_append [OF mo(1)]
      yo ye mo(2,3) do(2) dl
    by (rule refl)
  then show ?thesis by auto
qed

lemma civil_range:
  assumes "civil n = (y, m, d)"
  shows "m \<le> 12" "0 \<le> d" "d \<le> 31"
  using civil_sound [OF assms] monthLength_le [of "isLeap y" m] by simp_all

lemma civil_inj: "civil a = civil b \<longleftrightarrow> a = b"
proof
  assume e: "civil a = civil b"
  obtain y m d where ca: "civil a = (y, m, d)" by (cases "civil a")
  then have cb: "civil b = (y, m, d)" using e by simp
  have "a \<le> b" "b \<le> a" using civil_le [OF ca cb] civil_le [OF cb ca] by simp_all
  then show "a = b" by simp
qed simp

text \<open>
  The formatted dates of two days in years from 1 on are equal only for the same day;
  when the years are printed with the same number of digits, the formatted dates are
  ordered as strings like the days.
\<close>

lemma ymd_eq:
  assumes "1 \<le> fst (civil a)" "1 \<le> fst (civil b)"
  shows "dayString a = dayString b \<longleftrightarrow> a = b"
proof -
  obtain y m d where ca: "civil a = (y, m, d)" by (cases "civil a")
  obtain y' m' d' where cb: "civil b = (y', m', d')" by (cases "civil b")
  have ya: "1 \<le> y" and yb: "1 \<le> y'" using assms ca cb by simp_all
  have "formatYMD (y, m, d) = formatYMD (y', m', d') \<longleftrightarrow> y = y' \<and> m = m' \<and> d = d'"
    using ya civil_range [OF ca] yb civil_range [OF cb] by (rule formatYMD_eq)
  then have "dayString a = dayString b \<longleftrightarrow> civil a = civil b"
    by (simp add: dayString_def ca cb)
  then show ?thesis by (simp only: civil_inj)
qed

lemma ymd_le:
  assumes "1 \<le> fst (civil a)" "1 \<le> fst (civil b)"
    "length (showYear (fst (civil a))) = length (showYear (fst (civil b)))"
  shows "strLe (dayString a) (dayString b) \<longleftrightarrow> a \<le> b"
proof -
  obtain y m d where ca: "civil a = (y, m, d)" by (cases "civil a")
  obtain y' m' d' where cb: "civil b = (y', m', d')" by (cases "civil b")
  have ya: "1 \<le> y" and yb: "1 \<le> y'" and yl: "length (showYear y) = length (showYear y')"
    using assms ca cb by simp_all
  have "strLe (formatYMD (y, m, d)) (formatYMD (y', m', d')) \<longleftrightarrow>
           y < y' \<or> (y = y' \<and> (m < m' \<or> (m = m' \<and> d \<le> d')))"
    using ya civil_range [OF ca] yb civil_range [OF cb] yl by (rule formatYMD_le)
  then show ?thesis by (simp only: dayString_def ca cb civil_le [OF ca cb])
qed

lemma kstYMD_eq:
  assumes "1 \<le> kstYear zone a" "1 \<le> kstYear zone b"
  shows "kstYMD zone a = kstYMD zone b \<longleftrightarrow> kstDay zone a = kstDay zone b"
  using assms unfolding kstYMD_def kstYear_def by (rule ymd_eq)

lemma kstYMD_le:
  assumes "sameYearWidth zone a b"
  shows "strLe (kstYMD zone a) (kstYMD zone b) \<longleftrightarrow> kstDay zone a \<le> kstDay zone b"
  using assms unfolding kstYMD_def kstYear_def sameYearWidth_def by (intro ymd_le) simp_all

lemma sameYearWidth_sym: "sameYearWidth zone a b \<Longrightarrow> sameYearWidth zone b a"
  by (simp add: sameYearWidth_def)

lemma sameYearWidth_trans:
  "sameYearWidth zone a b \<Longrightarrow> sameYearWidth zone b c \<Longrightarrow> sameYearWidth zone a c"
  by (simp add: sameYearWidth_def)

lemma four_digit_years:
  assumes "1000 \<le> kstYear zone a" "kstYear zone a \<le> 9999"
    "1000 \<le> kstYear zone b" "kstYear zone b \<le> 9999"
  shows "sameYearWidth zone a b"
  using assms by (simp add: sameYearWidth_def showYear_four_digits)

lemma kstDay_daysAgo:
  assumes "zone (daysAgo now k) = zone now"
  shows "kstDay zone (daysAgo now k) = kstDay zone now - k"
proof -
  have "now - k * 24 * 60 * 60 * 1000 + zone now = now + zone now + 86400000 * (- k)"
    by simp
  then show ?thesis
    unfolding kstDay_def assms unfolding daysAgo_def
    using div_mult_self2 [of 86400000 "now + zone now" "- k"] by simp
qed

subsection \<open>The filters of the review sets\<close>

lemma seoulOffset_now: "592333200000 \<le> t \<Longrightarrow> seoulOffset t = 32400000"
  by (simp add: seoulOffset_def seoulTransitions_def)

lemmas cal_eval = kstYMD_def dayString_def kstDay_def daysAgo_def civil_def yearOf.simps monthOf.simps
  isLeap_def yearLength_def monthLength_def formatYMD_def showYear_def pad2_def
  showNat.simps digitChar_def

lemma jan2025_dates:
  "dayString (jan2025 7) = ''2025-01-07''"
  "dayString (jan2025 8) = ''2025-01-08''"
  "dayString (jan2025 10) = ''2025-01-10''"
  "dayString (jan2025 11) = ''2025-01-11''"
  "dayString (jan2025 12) = ''2025-01-12''"
  "dayString (jan2025 14) = ''2025-01-14''"
  "dayString (jan2025 15) = ''2025-01-15''"
  by (simp_all add: jan2025_def cal_eval)

lemma jan2025_year: "1 \<le> d \<Longrightarrow> d \<le> 31 \<Longrightarrow> fst (civil (jan2025 d)) = 2025"
proof -
  assume d: "1 \<le> d" "d \<le> 31"
  have m: "(20088 + d) mod 146097 = 20088 + d" "(20088 + d) div 146097 = 0"
    using d by simp_all
  have y: "yearOf 1970 (20088 + d) = (2025, d - 1)"
    using d by (simp add: yearOf.simps isLeap_def yearLength_def)
  show ?thesis by (simp add: civil_def jan2025_def m y split: prod.splits)
qed

text \<open>
  Years before 1 are printed like years after it: the tenth of January of the year 2025
  before the common era is printed like the one of 2025. This is why the statements
  about days, below, are about years from 1 on.
\<close>

lemma era_years_collide:
  "civil (- 1458770) = (- 2024, 1, 10)"
  "dayString (- 1458770) = ''2025-01-10''"
  "dayString (jan2025 10) = ''2025-01-10''"
  by (simp_all add: jan2025_def cal_eval)

lemma kstYear_jan2025:
  "1 \<le> d \<Longrightarrow> d \<le> 31 \<Longrightarrow> kstDay zone t = jan2025 d \<Longrightarrow> kstYear zone t = 2025"
  by (simp add: kstYear_def jan2025_year)

lemma sameYearWidth_jan2025:
  assumes "1 \<le> d" "d \<le> 31" "kstDay zone a = jan2025 d"
    and "1 \<le> d'" "d' \<le> 31" "kstDay zone b = jan2025 d'"
  shows "sameYearWidth zone a b"
  by (simp add: sameYearWidth_def kstYear_jan2025 [OF assms(1,2,3)] kstYear_jan2025 [OF assms(4,5,6)])

lemma yesterday_filter:
  assumes "1 \<le> kstYear zone (daysAgo now 1)" "\<forall>e\<in>set log. 1 \<le> kstYear zone (ts e)"
    "zone (daysAgo now 1) = zone now"
  shows "filter (\<lambda>e. kstYMD zone (ts e) = kstYMD zone (daysAgo now 1)) log
           = filter (\<lambda>e. kstDay zone (ts e) = kstDay zone now - 1) log"
proof (rule filter_cong [OF refl])
  fix e assume "e \<in> set log"
  then have "1 \<le> kstYear zone (ts e)" using assms(2) by blast
  from kstYMD_eq [OF this assms(1)]
  show "(kstYMD zone (ts e) = kstYMD zone (daysAgo now 1))
          = (kstDay zone (ts e) = kstDay zone now - 1)"
    by (simp only: kstDay_daysAgo [OF assms(3)])
qed

lemma last7_filter:
  assumes "\<forall>e\<in>set log. sameYearWidth zone (ts e) (daysAgo now 7)"
    "sameYearWidth zone (daysAgo now 1) (daysAgo now 7)"
    "zone (daysAgo now 7) = zone now" "zone (daysAgo now 1) = zone now"
  shows "filter (\<lambda>e. let d = kstYMD zone (ts e)
                     in strLe (kstYMD zone (daysAgo now 7)) d
                        \<and> strLe d (kstYMD zone (daysAgo now 1))) log
           = filter (\<lambda>e. kstDay zone now - 7 \<le> kstDay zone (ts e)
                        \<and> kstDay zone (ts e) \<le> kstDay zone now - 1) log"
proof (rule filter_cong [OF refl])
  fix e assume "e \<in> set log"
  then have f: "sameYearWidth zone (ts e) (daysAgo now 7)" using assms(1) by blast
  note s = sameYearWidth_sym [OF f]
  note e1 = sameYearWidth_trans [OF f sameYearWidth_sym [OF assms(2)]]
  show "(let d = kstYMD zone (ts e)
          in strLe (kstYMD zone (daysAgo now 7)) d \<and> strLe d (kstYMD zone (daysAgo now 1)))
        = (kstDay zone now - 7 \<le> kstDay zone (ts e) \<and> kstDay zone (ts e) \<le> kstDay zone now - 1)"
    by (simp only: Let_def kstYMD_le [OF s] kstYMD_le [OF e1]
        kstDay_daysAgo [OF assms(3)] kstDay_daysAgo [OF assms(4)])
qed

lemma valid_log: "(\<forall>e\<in>set log. validTime (ts e)) \<longleftrightarrow> list_all (\<lambda>e. validTime (ts e)) log"
  by (simp add: list_all_iff)

lemma kstYMD_daysAgo:
  "zone (daysAgo now k) = zone now \<Longrightarrow> kstYMD zone (daysAgo now k) = dayString (kstDay zone now - k)"
  by (simp add: kstYMD_def kstDay_daysAgo)

text \<open>
  The review sets in terms of the printed dates: the target of the yesterday set is the
  date of the day before the day of \<open>now\<close>, and the window of the last seven days runs
  from the date seven days before to the date one day before the day of \<open>now\<close>.
\<close>

lemma yesterday_by_string:
  assumes "parseStored (studyLog st) = Inr log" "\<forall>e\<in>set log. validTime (ts e)"
    "zone (daysAgo now 1) = zone now"
  shows "getYesterdayReviewSet zone maxItems now st
           = Inr (slice0 (rankEvents
                (filter (\<lambda>e. kstYMD zone (ts e) = dayString (kstDay zone now - 1)) log))
                maxItems)"
proof -
  have v: "list_all (\<lambda>e. validTime (ts e)) log" using assms(2) by (simp add: list_all_iff)
  show ?thesis
    using assms(1) v by (simp add: getYesterdayReviewSet_def Let_def kstYMD_daysAgo [OF assms(3)])
qed

lemma last7_by_string:
  assumes "parseStored (studyLog st) = Inr log" "\<forall>e\<in>set log. validTime (ts e)"
    "zone (daysAgo now 7) = zone now" "zone (daysAgo now 1) = zone now"
  shows "getLast7DaysReviewSet zone maxItems now now st
           = Inr (slice0 (rankEvents
                (filter (\<lambda>e. strLe (dayString (kstDay zone now - 7)) (kstYMD zone (ts e))
                             \<and> strLe (kstYMD zone (ts e)) (dayString (kstDay zone now - 1))) log))
                maxItems)"
proof -
  have v: "list_all (\<lambda>e. validTime (ts e)) log" using assms(2) by (simp add: list_all_iff)
  show ?thesis
    using assms(1) v
    by (simp add: getLast7DaysReviewSet_def Let_def kstYMD_daysAgo [OF assms(3)]
        kstYMD_daysAgo [OF assms(4)])
qed

lemma yesterday_by_day:
  assumes "parseStored (studyLog st) = Inr log"
    "\<forall>e\<in>set log. validTime (ts e) \<and> 1 \<le> kstYear zone (ts e)"
    "1 \<le> kstYear zone (daysAgo now 1)" "zone (daysAgo now 1) = zone now"
  shows "getYesterdayReviewSet zone maxItems now st
           = Inr (slice0 (rankEvents
                (filter (\<lambda>e. kstDay zone (ts e) = kstDay zone now - 1) log)) maxItems)"
proof -
  have v: "list_all (\<lambda>e. validTime (ts e)) log" using assms(2) by (simp add: list_all_iff)
  have y: "\<forall>e\<in>set log. 1 \<le> kstYear zone (ts e)" using assms(2) by simp
  show ?thesis
    using assms(1) v yesterday_filter [OF assms(3) y assms(4)]
    by (simp add: getYesterdayReviewSet_def Let_def)
qed

lemma last7_by_day:
  assumes "parseStored (studyLog st) = Inr log"
    "\<forall>e\<in>set log. validTime (ts e) \<and> sameYearWidth zone (ts e) (daysAgo now 7)"
    "sameYearWidth zone (daysAgo now 1) (daysAgo now 7)"
    "zone (daysAgo now 7) = zone now" "zone (daysAgo now 1) = zone now"
  shows "getLast7DaysReviewSet zone maxItems now now st
           = Inr (slice0 (rankEvents
                (filter (\<lambda>e. kstDay zone now - 7 \<le> kstDay zone (ts e)
                             \<and> kstDay zone (ts e) \<le> kstDay zone now - 1) log))
                maxItems)"
proof -
  have v: "list_all (\<lambda>e. validTime (ts e)) log" using assms(2) by (simp add: list_all_iff)
  have y: "\<forall>e\<in>set log. sameYearWidth zone (ts e) (daysAgo now 7)" using assms(2) by simp
  show ?thesis
    using assms(1) v last7_filter [OF y assms(3,4,5)]
    by (simp add: getLast7DaysReviewSet_def Let_def)
qed

lemma invalid_time_throws:
  assumes "parseStored (studyLog st) = Inr log" "\<exists>e\<in>set log. \<not> validTime (ts e)"
  shows "getYesterdayReviewSet zone maxItems now st = Inl RangeError"
    and "getLast7DaysReviewSet zone maxItems now7 now1 st = Inl RangeError"
proof -
  have v: "\<not> list_all (\<lambda>e. validTime (ts e)) log" using assms(2) by (simp add: list_all_iff)
  show "getYesterdayReviewSet zone maxItems now st = Inl RangeError"
    using assms(1) v by (simp add: getYesterdayReviewSet_def Let_def)
  show "getLast7DaysReviewSet zone maxItems now7 now1 st = Inl RangeError"
    using assms(1) v by (simp add: getLast7DaysReviewSet_def Let_def)
qed

lemma rankEvents_single: "itemId e \<noteq> ''__proto__'' \<Longrightarrow> rankEvents [e] = [itemId e]"
  by (simp add: rankEvents_def ranked_def accumulate_def rankStep_def Let_def
      objectValues_def sortBy_def)

lemma yesterday_single:
  assumes "studyLog st = Parsed [e]" "validTime (ts e)" "itemId e \<noteq> ''__proto__''"
    "kstDay zone (ts e) = jan2025 10" "1 \<le> n" "n \<le> 31"
    "kstDay zone now = jan2025 (n + 1)" "zone (daysAgo now 1) = zone now"
  shows "getYesterdayReviewSet zone 30 now st = Inr (if n = 10 then [itemId e] else [])"
proof -
  have p: "parseStored (studyLog st) = Inr [e]" using assms(1) by (simp add: parseStored_def)
  have e: "\<forall>x\<in>set [e]. validTime (ts x) \<and> 1 \<le> kstYear zone (ts x)"
    using kstYear_jan2025 [OF _ _ assms(4)] assms(2) by simp
  have d1: "kstDay zone (daysAgo now 1) = jan2025 n"
    using assms(7) by (simp add: kstDay_daysAgo [OF assms(8)] jan2025_def)
  have f1: "1 \<le> kstYear zone (daysAgo now 1)"
    using kstYear_jan2025 [OF assms(5,6) d1] by simp
  have "getYesterdayReviewSet zone 30 now st
          = Inr (slice0 (rankEvents
                (filter (\<lambda>e. kstDay zone (ts e) = kstDay zone now - 1) [e])) 30)"
    using p e f1 assms(8) by (rule yesterday_by_day)
  then show ?thesis using assms(4,7)
    by (simp add: jan2025_def rankEvents_single [OF assms(3)] rankEvents_Nil slice0_def)
qed

lemma last7_single:
  assumes "studyLog st = Parsed [e]" "validTime (ts e)" "itemId e \<noteq> ''__proto__''"
    "kstDay zone now = jan2025 15" "1 \<le> n" "n \<le> 31" "kstDay zone (ts e) = jan2025 n"
    "zone (daysAgo now 7) = zone now" "zone (daysAgo now 1) = zone now"
  shows "getLast7DaysReviewSet zone 30 now now st
           = Inr (if 8 \<le> n \<and> n \<le> 14 then [itemId e] else [])"
proof -
  have p: "parseStored (studyLog st) = Inr [e]" using assms(1) by (simp add: parseStored_def)
  have d7: "kstDay zone (daysAgo now 7) = jan2025 8"
    and d1: "kstDay zone (daysAgo now 1) = jan2025 14"
    using assms(4) by (simp_all add: kstDay_daysAgo [OF assms(8)] kstDay_daysAgo [OF assms(9)] jan2025_def)
  have e: "\<forall>x\<in>set [e]. validTime (ts x) \<and> sameYearWidth zone (ts x) (daysAgo now 7)"
    using sameYearWidth_jan2025 [OF assms(5,6,7) _ _ d7] assms(2) by simp
  have f: "sameYearWidth zone (daysAgo now 1) (daysAgo now 7)"
    using sameYearWidth_jan2025 [OF _ _ d1 _ _ d7] by simp
  have "getLast7DaysReviewSet zone 30 now now st
          = Inr (slice0 (rankEvents
                (filter (\<lambda>e. kstDay zone now - 7 \<le> kstDay zone (ts e)
                             \<and> kstDay zone (ts e) \<le> kstDay zone now - 1) [e]))
                30)"
    using p e f assms(8,9) by (rule last7_by_day)
  then show ?thesis using assms(4,7)
    by (simp add: jan2025_def rankEvents_single [OF assms(3)] rankEvents_Nil slice0_def)
qed

lemma date_of_jan2025:
  assumes "1 \<le> kstYear zone t" "1 \<le> d" "d \<le> 31"
  shows "kstYMD zone t = dayString (jan2025 d) \<longleftrightarrow> kstDay zone t = jan2025 d"
proof -
  have "1 \<le> fst (civil (kstDay zone t))" using assms(1) by (simp add: kstYear_def)
  moreover have "1 \<le> fst (civil (jan2025 d))" using jan2025_year [OF assms(2,3)] by simp
  ultimately show ?thesis unfolding kstYMD_def by (rule ymd_eq)
qed

subsection \<open>Yesterday and the last seven days\<close>

text \<open>
  Claim C3 says that the review sets take exactly the events whose calendar date is the
  day before today, or lies in the window of seven days that ends there. Three inputs
  show where the code does something else.

  The last-seven-days set compares the formatted dates as strings, which agrees with the
  order of the dates only while the years have the same number of digits. At noon of
  2025-01-03 the window runs from \<open>2024-12-27\<close> to \<open>2025-01-02\<close>, and an event whose
  timestamp falls in the year 20244 is formatted \<open>20244-11-05\<close>, which lies between the
  two strings: the event is taken although its date is not in the window.

  A timestamp of more than 8.64e15 milliseconds is no valid time value: formatting it
  throws, and neither set is returned.

  The day before today is taken to be the day of the instant 24 hours before now. On
  1987-05-10 the clocks of Asia/Seoul went from 2:00 to 3:00, so that 24 hours before
  0:30 of 1987-05-11 it was 23:30 of 1987-05-09: an event of 1987-05-10, 13:00, is not in
  the yesterday set of that night.
\<close>

theorem year_20244_in_window:
  "getLast7DaysReviewSet seoulOffset 30 1735873200000 1735873200000
     \<lparr>studyLog = Parsed [\<lparr>itemId = ''D1W1'', itemType = ''word'', outcome = ''view'',
                          ts = 576698400000000\<rparr>],
      quizItems = Absent, pathname = ''/index.html'', alerts = [], container = None,
      current = 0\<rparr> = Inr [''D1W1''] \<and>
   kstYMD seoulOffset 576698400000000 = ''20244-11-05'' \<and>
   kstYMD seoulOffset 1735873200000 = ''2025-01-03'' \<and>
   kstYMD seoulOffset (daysAgo 1735873200000 7) = ''2024-12-27'' \<and>
   kstYMD seoulOffset (daysAgo 1735873200000 1) = ''2025-01-02'' \<and>
   kstDay seoulOffset 1735873200000 - 1 < kstDay seoulOffset 576698400000000 \<and>
   getYesterdayReviewSet seoulOffset 30 1735873200000
     \<lparr>studyLog = Parsed [\<lparr>itemId = ''D1W1'', itemType = ''word'', outcome = ''view'',
                          ts = 8640000000000001\<rparr>],
      quizItems = Absent, pathname = ''/index.html'', alerts = [], container = None,
      current = 0\<rparr> = Inl RangeError \<and>
   getYesterdayReviewSet seoulOffset 30 547655400000
     \<lparr>studyLog = Parsed [\<lparr>itemId = ''D1W1'', itemType = ''word'', outcome = ''view'',
                          ts = 547614000000\<rparr>],
      quizItems = Absent, pathname = ''/index.html'', alerts = [], container = None,
      current = 0\<rparr> = Inr [] \<and>
   kstYMD seoulOffset 547655400000 = ''1987-05-11'' \<and>
   kstYMD seoulOffset 547614000000 = ''1987-05-10'' \<and>
   kstYMD seoulOffset (daysAgo 547655400000 1) = ''1987-05-09'' \<and>
   kstDay seoulOffset 547614000000 = kstDay seoulOffset 547655400000 - 1"
proof -
  have z: "seoulOffset 576698400000000 = 32400000" "seoulOffset 1735873200000 = 32400000"
    "seoulOffset (daysAgo 1735873200000 7) = 32400000"
    "seoulOffset (daysAgo 1735873200000 1) = 32400000"
    by (simp_all add: seoulOffset_now daysAgo_def)
  have z87: "seoulOffset 547655400000 = 36000000" "seoulOffset 547614000000 = 36000000"
    "seoulOffset (daysAgo 547655400000 1) = 32400000"
    by (simp_all add: seoulOffset_def seoulTransitions_def daysAgo_def)
  have d: "kstDay seoulOffset 576698400000000 = 6674750"
    "kstDay seoulOffset 1735873200000 = 20091"
    "kstDay seoulOffset (daysAgo 1735873200000 7) = 20084"
    "kstDay seoulOffset (daysAgo 1735873200000 1) = 20090"
    by (simp_all add: kstDay_def z) (simp_all add: daysAgo_def)
  have d87: "kstDay seoulOffset 547655400000 = 6339" "kstDay seoulOffset 547614000000 = 6338"
    "kstDay seoulOffset (daysAgo 547655400000 1) = 6337"
    by (simp_all add: kstDay_def z87) (simp_all add: daysAgo_def)
  have s: "kstYMD seoulOffset 576698400000000 = ''20244-11-05''"
    "kstYMD seoulOffset 1735873200000 = ''2025-01-03''"
    "kstYMD seoulOffset (daysAgo 1735873200000 7) = ''2024-12-27''"
    "kstYMD seoulOffset (daysAgo 1735873200000 1) = ''2025-01-02''"
    unfolding kstYMD_def d
    by (simp_all add: dayString_def civil_def yearOf.simps monthOf.simps isLeap_def yearLength_def
        monthLength_def formatYMD_def showYear_def pad2_def showNat.simps digitChar_def)
  have s87: "kstYMD seoulOffset 547655400000 = ''1987-05-11''"
    "kstYMD seoulOffset 547614000000 = ''1987-05-10''"
    "kstYMD seoulOffset (daysAgo 547655400000 1) = ''1987-05-09''"
    unfolding kstYMD_def d87
    by (simp_all add: dayString_def civil_def yearOf.simps monthOf.simps isLeap_def yearLength_def
        monthLength_def formatYMD_def showYear_def pad2_def showNat.simps digitChar_def)
  have a: "getLast7DaysReviewSet seoulOffset 30 1735873200000 1735873200000
     \<lparr>studyLog = Parsed [\<lparr>itemId = ''D1W1'', itemType = ''word'', outcome = ''view'',
                          ts = 576698400000000\<rparr>],
      quizItems = Absent, pathname = ''/index.html'', alerts = [], container = None,
      current = 0\<rparr> = Inr [''D1W1'']"
    by (simp add: getLast7DaysReviewSet_def parseStored_def validTime_def s rankEvents_single
        slice0_def)
  have b: "getYesterdayReviewSet seoulOffset 30 1735873200000
     \<lparr>studyLog = Parsed [\<lparr>itemId = ''D1W1'', itemType = ''word'', outcome = ''view'',
                          ts = 8640000000000001\<rparr>],
      quizItems = Absent, pathname = ''/index.html'', alerts = [], container = None,
      current = 0\<rparr> = Inl RangeError"
    by (simp add: getYesterdayReviewSet_def parseStored_def validTime_def)
  have c: "getYesterdayReviewSet seoulOffset 30 547655400000
     \<lparr>studyLog = Parsed [\<lparr>itemId = ''D1W1'', itemType = ''word'', outcome = ''view'',
                          ts = 547614000000\<rparr>],
      quizItems = Absent, pathname = ''/index.html'', alerts = [], container = None,
      current = 0\<rparr> = Inr []"
    by (simp add: getYesterdayReviewSet_def parseStored_def validTime_def s87 rankEvents_Nil
        slice0_def)
  show ?thesis using a b c s s87 by (simp add: d d87)
qed

text \<open>
  Claim C3, amended. Let the clock give the instant \<open>now\<close> to every read, let the
  timestamps of the log and the instants one day and seven days before \<open>now\<close> be valid
  time values, and let the offset of Asia/Seoul be the same at \<open>now\<close> and 24 hours
  before it, as it has been since October 1988. Then the yesterday set ranks exactly
  the events whose date in Asia/Seoul is printed like the day before the day of \<open>now\<close>,
  whatever the time of day; when the timestamps and that day fall in years from 1 on,
  these are exactly the events of that day. When the offset is also the same seven days
  before \<open>now\<close>, the last-seven-days set ranks exactly the events whose printed date lies,
  as a string, between the printed dates of the days seven days and one day before the
  day of \<open>now\<close>, both included; when the years of the timestamps and of these two days
  are years from 1 on that are printed with the same number of digits, as all years from
  1000 to 9999 are, these are exactly the events whose day lies between the two days.
  Each result is cut to its first \<open>maxItems\<close> ids. A log with a timestamp that is no valid time
  value makes both sets throw. An event of 2025-01-10 is in the yesterday set when \<open>now\<close>
  is on 2025-01-11 and not when \<open>now\<close> is on 2025-01-12. With \<open>now\<close> on 2025-01-15,
  events of 2025-01-08 and 2025-01-14 are in the last-seven-days set and events of
  2025-01-07 and 2025-01-15 are not. (In these examples the event is the only one of the
  log and its item id is not \<open>__proto__\<close>, so that the set is the list of its id or
  empty.)
\<close>

theorem review_set_windows:
  "(parseStored (studyLog st) = Inr log \<and> (\<forall>e\<in>set log. validTime (ts e)) \<and>
    validTime (daysAgo now 1) \<and> zone (daysAgo now 1) = zone now \<longrightarrow>
      getYesterdayReviewSet zone maxItems now st
        = Inr (slice0 (rankEvents
            (filter (\<lambda>e. kstYMD zone (ts e) = dayString (kstDay zone now - 1)) log))
            maxItems) \<and>
      ((\<forall>e\<in>set log. 1 \<le> kstYear zone (ts e)) \<and> 1 \<le> kstYear zone (daysAgo now 1) \<longrightarrow>
         getYesterdayReviewSet zone maxItems now st
           = Inr (slice0 (rankEvents
               (filter (\<lambda>e. kstDay zone (ts e) = kstDay zone now - 1) log)) maxItems))) \<and>
   (parseStored (studyLog st) = Inr log \<and> (\<forall>e\<in>set log. validTime (ts e)) \<and>
    validTime (daysAgo now 7) \<and> validTime (daysAgo now 1) \<and>
    zone (daysAgo now 7) = zone now \<and> zone (daysAgo now 1) = zone now \<longrightarrow>
      getLast7DaysReviewSet zone maxItems now now st
        = Inr (slice0 (rankEvents
            (filter (\<lambda>e. strLe (dayString (kstDay zone now - 7)) (kstYMD zone (ts e))
                         \<and> strLe (kstYMD zone (ts e)) (dayString (kstDay zone now - 1))) log))
            maxItems) \<and>
      ((\<forall>e\<in>set log. sameYearWidth zone (ts e) (daysAgo now 7)) \<and>
       sameYearWidth zone (daysAgo now 1) (daysAgo now 7) \<longrightarrow>
         getLast7DaysReviewSet zone maxItems now now st
           = Inr (slice0 (rankEvents
               (filter (\<lambda>e. kstDay zone now - 7 \<le> kstDay zone (ts e)
                            \<and> kstDay zone (ts e) \<le> kstDay zone now - 1) log))
               maxItems))) \<and>
   (parseStored (studyLog st) = Inr log \<and> (\<exists>e\<in>set log. \<not> validTime (ts e)) \<longrightarrow>
      getYesterdayReviewSet zone maxItems now st = Inl RangeError \<and>
      getLast7DaysReviewSet zone maxItems now now st = Inl RangeError) \<and>
   (0 \<le> maxItems \<longrightarrow> slice0 ids maxItems = take (nat maxItems) ids) \<and>
   (1000 \<le> kstYear zone a \<and> kstYear zone a \<le> 9999 \<and>
    1000 \<le> kstYear zone b \<and> kstYear zone b \<le> 9999 \<longrightarrow> sameYearWidth zone a b) \<and>
   (1 \<le> kstYear zone t \<longrightarrow>
      (kstYMD zone t = ''2025-01-07'' \<longleftrightarrow> kstDay zone t = jan2025 7) \<and>
      (kstYMD zone t = ''2025-01-08'' \<longleftrightarrow> kstDay zone t = jan2025 8) \<and>
      (kstYMD zone t = ''2025-01-10'' \<longleftrightarrow> kstDay zone t = jan2025 10) \<and>
      (kstYMD zone t = ''2025-01-11'' \<longleftrightarrow> kstDay zone t = jan2025 11) \<and>
      (kstYMD zone t = ''2025-01-12'' \<longleftrightarrow> kstDay zone t = jan2025 12) \<and>
      (kstYMD zone t = ''2025-01-14'' \<longleftrightarrow> kstDay zone t = jan2025 14) \<and>
      (kstYMD zone t = ''2025-01-15'' \<longleftrightarrow> kstDay zone t = jan2025 15)) \<and>
   (studyLog st = Parsed [e] \<and> validTime (ts e) \<and> itemId e \<noteq> ''__proto__'' \<and>
    kstDay zone (ts e) = jan2025 10 \<and>
    validTime (daysAgo now 1) \<and> zone (daysAgo now 1) = zone now \<longrightarrow>
      (kstDay zone now = jan2025 11 \<longrightarrow> getYesterdayReviewSet zone 30 now st = Inr [itemId e]) \<and>
      (kstDay zone now = jan2025 12 \<longrightarrow> getYesterdayReviewSet zone 30 now st = Inr [])) \<and>
   (studyLog st = Parsed [e] \<and> validTime (ts e) \<and> itemId e \<noteq> ''__proto__'' \<and>
    kstDay zone now = jan2025 15 \<and>
    validTime (daysAgo now 7) \<and> validTime (daysAgo now 1) \<and>
    zone (daysAgo now 7) = zone now \<and> zone (daysAgo now 1) = zone now \<longrightarrow>
      (kstDay zone (ts e) = jan2025 8 \<longrightarrow>
         getLast7DaysReviewSet zone 30 now now st = Inr [itemId e]) \<and>
      (kstDay zone (ts e) = jan2025 14 \<longrightarrow>
         getLast7DaysReviewSet zone 30 now now st = Inr [itemId e]) \<and>
      (kstDay zone (ts e) = jan2025 7 \<longrightarrow>
         getLast7DaysReviewSet zone 30 now now st = Inr []) \<and>
      (kstDay zone (ts e) = jan2025 15 \<longrightarrow>
         getLast7DaysReviewSet zone 30 now now st = Inr []))"
proof (intro conjI impI)
  assume a: "parseStored (studyLog st) = Inr log \<and> (\<forall>e\<in>set log. validTime (ts e)) \<and>
    validTime (daysAgo now 1) \<and> zone (daysAgo now 1) = zone now"
  then have h: "parseStored (studyLog st) = Inr log" "\<forall>e\<in>set log. validTime (ts e)"
    "zone (daysAgo now 1) = zone now"
    by simp_all
  show "getYesterdayReviewSet zone maxItems now st
        = Inr (slice0 (rankEvents
            (filter (\<lambda>e. kstYMD zone (ts e) = dayString (kstDay zone now - 1)) log))
            maxItems)"
    using h by (rule yesterday_by_string)
  assume b: "(\<forall>e\<in>set log. 1 \<le> kstYear zone (ts e)) \<and> 1 \<le> kstYear zone (daysAgo now 1)"
  have "\<forall>e\<in>set log. validTime (ts e) \<and> 1 \<le> kstYear zone (ts e)" using h(2) b by simp
  moreover have "1 \<le> kstYear zone (daysAgo now 1)" using b by simp
  ultimately show "getYesterdayReviewSet zone maxItems now st
           = Inr (slice0 (rankEvents
               (filter (\<lambda>e. kstDay zone (ts e) = kstDay zone now - 1) log)) maxItems)"
    using h(1,3) by (intro yesterday_by_day)
next
  assume a: "parseStored (studyLog st) = Inr log \<and> (\<forall>e\<in>set log. validTime (ts e)) \<and>
    validTime (daysAgo now 7) \<and> validTime (daysAgo now 1) \<and>
    zone (daysAgo now 7) = zone now \<and> zone (daysAgo now 1) = zone now"
  then have h: "parseStored (studyLog st) = Inr log" "\<forall>e\<in>set log. validTime (ts e)"
    "zone (daysAgo now 7) = zone now" "zone (daysAgo now 1) = zone now"
    by simp_all
  show "getLast7DaysReviewSet zone maxItems now now st
        = Inr (slice0 (rankEvents
            (filter (\<lambda>e. strLe (dayString (kstDay zone now - 7)) (kstYMD zone (ts e))
                         \<and> strLe (kstYMD zone (ts e)) (dayString (kstDay zone now - 1))) log))
            maxItems)"
    using h by (rule last7_by_string)
  assume b: "(\<forall>e\<in>set log. sameYearWidth zone (ts e) (daysAgo now 7)) \<and>
       sameYearWidth zone (daysAgo now 1) (daysAgo now 7)"
  have "\<forall>e\<in>set log. validTime (ts e) \<and> sameYearWidth zone (ts e) (daysAgo now 7)"
    using h(2) b by simp
  moreover have "sameYearWidth zone (daysAgo now 1) (daysAgo now 7)" using b by simp
  ultimately show "getLast7DaysReviewSet zone maxItems now now st
           = Inr (slice0 (rankEvents
               (filter (\<lambda>e. kstDay zone now - 7 \<le> kstDay zone (ts e)
                            \<and> kstDay zone (ts e) \<le> kstDay zone now - 1) log))
               maxItems)"
    using h(1,3,4) by (intro last7_by_day)
next
  assume a: "parseStored (studyLog st) = Inr log \<and> (\<exists>e\<in>set log. \<not> validTime (ts e))"
  then have h: "parseStored (studyLog st) = Inr log" "\<exists>e\<in>set log. \<not> validTime (ts e)"
    by simp_all
  show "getYesterdayReviewSet zone maxItems now st = Inl RangeError"
    using h by (rule invalid_time_throws(1))
  show "getLast7DaysReviewSet zone maxItems now now st = Inl RangeError"
    using h by (rule invalid_time_throws(2))
next
  assume "0 \<le> maxItems"
  then show "slice0 ids maxItems = take (nat maxItems) ids" by (simp add: slice0_def)
next
  assume "1000 \<le> kstYear zone a \<and> kstYear zone a \<le> 9999 \<and>
    1000 \<le> kstYear zone b \<and> kstYear zone b \<le> 9999"
  then show "sameYearWidth zone a b" by (simp add: four_digit_years)
next
  assume f: "1 \<le> kstYear zone t"
  show "kstYMD zone t = ''2025-01-07'' \<longleftrightarrow> kstDay zone t = jan2025 7"
    using date_of_jan2025 [OF f, of 7] by (simp only: jan2025_dates)
  show "kstYMD zone t = ''2025-01-08'' \<longleftrightarrow> kstDay zone t = jan2025 8"
    using date_of_jan2025 [OF f, of 8] by (simp only: jan2025_dates)
  show "kstYMD zone t = ''2025-01-10'' \<longleftrightarrow> kstDay zone t = jan2025 10"
    using date_of_jan2025 [OF f, of 10] by (simp only: jan2025_dates)
  show "kstYMD zone t = ''2025-01-11'' \<longleftrightarrow> kstDay zone t = jan2025 11"
    using date_of_jan2025 [OF f, of 11] by (simp only: jan2025_dates)
  show "kstYMD zone t = ''2025-01-12'' \<longleftrightarrow> kstDay zone t = jan2025 12"
    using date_of_jan2025 [OF f, of 12] by (simp only: jan2025_dates)
  show "kstYMD zone t = ''2025-01-14'' \<longleftrightarrow> kstDay zone t = jan2025 14"
    using date_of_jan2025 [OF f, of 14] by (simp only: jan2025_dates)
  show "kstYMD zone t = ''2025-01-15'' \<longleftrightarrow> kstDay zone t = jan2025 15"
    using date_of_jan2025 [OF f, of 15] by (simp only: jan2025_dates)
next
  assume a: "studyLog st = Parsed [e] \<and> validTime (ts e) \<and> itemId e \<noteq> ''__proto__'' \<and>
    kstDay zone (ts e) = jan2025 10 \<and>
    validTime (daysAgo now 1) \<and> zone (daysAgo now 1) = zone now"
  show "getYesterdayReviewSet zone 30 now st = Inr [itemId e]" if "kstDay zone now = jan2025 11"
    using yesterday_single [of st e zone 10 now] a that by simp
  show "getYesterdayReviewSet zone 30 now st = Inr []" if "kstDay zone now = jan2025 12"
    using yesterday_single [of st e zone 11 now] a that by simp
next
  assume a: "studyLog st = Parsed [e] \<and> validTime (ts e) \<and> itemId e \<noteq> ''__proto__'' \<and>
    kstDay zone now = jan2025 15 \<and>
    validTime (daysAgo now 7) \<and> validTime (daysAgo now 1) \<and>
    zone (daysAgo now 7) = zone now \<and> zone (daysAgo now 1) = zone now"
  show "getLast7DaysReviewSet zone 30 now now st = Inr [itemId e]"
    if "kstDay zone (ts e) = jan2025 8"
    using last7_single [of st e zone now 8] a that by simp
  show "getLast7DaysReviewSet zone 30 now now st = Inr [itemId e]"
    if "kstDay zone (ts e) = jan2025 14"
    using last7_single [of st e zone now 14] a that by simp
  show "getLast7DaysReviewSet zone 30 now now st = Inr []"
    if "kstDay zone (ts e) = jan2025 7"
    using last7_single [of st e zone now 7] a that by simp
  show "getLast7DaysReviewSet zone 30 now now st = Inr []"
    if "kstDay zone (ts e) = jan2025 15"
    using last7_single [of st e zone now 15] a that by simp
qed

theorem review_set_windows_witness:
  "getYesterdayReviewSet seoulOffset 30 1736564400000
     \<lparr>studyLog = Parsed log2025, quizItems = Absent, pathname = ''/index.html'', alerts = [],
      container = None, current = 0\<rparr> = Inr [''D1W1'', ''D1P''] \<and>
   getLast7DaysReviewSet seoulOffset 30 1736564400000 1736564400000
     \<lparr>studyLog = Parsed log2025, quizItems = Absent, pathname = ''/index.html'', alerts = [],
      container = None, current = 0\<rparr> = Inr [''D1W1'', ''D1P'', ''D1W2''] \<and>
   kstYMD seoulOffset 1736564400000 = ''2025-01-11'' \<and>
   kstYMD seoulOffset 1736521199999 = ''2025-01-10'' \<and>
   kstYMD seoulOffset 1736434800000 = ''2025-01-10'' \<and>
   kstYMD seoulOffset 1736348400000 = ''2025-01-09'' \<and>
   seoulOffset (daysAgo 1736564400000 7) = seoulOffset 1736564400000 \<and>
   seoulOffset (daysAgo 1736564400000 1) = seoulOffset 1736564400000 \<and>
   getYesterdayReviewSet seoulOffset 30 1736564400000
     \<lparr>studyLog = Parsed [\<lparr>itemId = ''D1W1'', itemType = ''word'', outcome = ''wrong'',
                          ts = 1736434800000\<rparr>],
      quizItems = Absent, pathname = ''/index.html'', alerts = [], container = None,
      current = 0\<rparr> = Inr [''D1W1''] \<and>
   getLast7DaysReviewSet seoulOffset 30 1736564400000 1736564400000
     \<lparr>studyLog = Parsed [\<lparr>itemId = ''D1W1'', itemType = ''word'', outcome = ''wrong'',
                          ts = 8640000000000001\<rparr>],
      quizItems = Absent, pathname = ''/index.html'', alerts = [], container = None,
      current = 0\<rparr> = Inl RangeError"
proof -
  let ?st = "\<lparr>studyLog = Parsed log2025, quizItems = Absent, pathname = ''/index.html'',
      alerts = [], container = None, current = 0\<rparr>"
  let ?now = "1736564400000 :: int"
  have p: "parseStored (studyLog ?st) = Inr log2025" by (simp add: parseStored_def)
  have z: "seoulOffset 1736348400000 = 32400000" "seoulOffset 1736521199999 = 32400000"
    "seoulOffset 1736434800000 = 32400000" "seoulOffset ?now = 32400000"
    "seoulOffset (daysAgo ?now 7) = 32400000" "seoulOffset (daysAgo ?now 1) = 32400000"
    by (simp_all add: seoulOffset_now daysAgo_def)
  have d: "kstDay seoulOffset 1736348400000 = 20097" "kstDay seoulOffset 1736521199999 = 20098"
    "kstDay seoulOffset 1736434800000 = 20098" "kstDay seoulOffset ?now = 20099"
    "kstDay seoulOffset (daysAgo ?now 7) = 20092" "kstDay seoulOffset (daysAgo ?now 1) = 20098"
    by (simp_all add: kstDay_def z) (simp_all add: daysAgo_def)
  have c: "civil 20097 = (2025, 1, 9)" "civil 20098 = (2025, 1, 10)" "civil 20099 = (2025, 1, 11)"
    "civil 20092 = (2025, 1, 4)"
    by (simp_all add: civil_def yearOf.simps monthOf.simps isLeap_def yearLength_def
        monthLength_def)
  have v: "\<forall>e\<in>set log2025. validTime (ts e)" "validTime (daysAgo ?now 7)"
    "validTime (daysAgo ?now 1)"
    by (simp_all add: log2025_def validTime_def daysAgo_def)
  have y: "\<forall>e\<in>set log2025. 1 \<le> kstYear seoulOffset (ts e)"
    "1 \<le> kstYear seoulOffset (daysAgo ?now 1)"
    by (simp_all add: log2025_def kstYear_def d c)
  have w: "\<forall>e\<in>set log2025. sameYearWidth seoulOffset (ts e) (daysAgo ?now 7)"
    "sameYearWidth seoulOffset (daysAgo ?now 1) (daysAgo ?now 7)"
    by (simp_all add: log2025_def sameYearWidth_def kstYear_def d c)
  have s: "kstYMD seoulOffset ?now = ''2025-01-11''"
    "kstYMD seoulOffset 1736521199999 = ''2025-01-10''"
    "kstYMD seoulOffset 1736434800000 = ''2025-01-10''"
    "kstYMD seoulOffset 1736348400000 = ''2025-01-09''"
    by (simp_all add: kstYMD_def dayString_def d c formatYMD_def showYear_def pad2_def
        showNat.simps digitChar_def)
  note r = review_set_windows [where st = ?st and log = log2025 and zone = seoulOffset
      and now = ?now and maxItems = 30]
  have h1: "parseStored (studyLog ?st) = Inr log2025 \<and> (\<forall>e\<in>set log2025. validTime (ts e)) \<and>
    validTime (daysAgo ?now 1) \<and> seoulOffset (daysAgo ?now 1) = seoulOffset ?now"
    using p v by (simp add: z)
  have h2: "(\<forall>e\<in>set log2025. 1 \<le> kstYear seoulOffset (ts e)) \<and>
    1 \<le> kstYear seoulOffset (daysAgo ?now 1)"
    using y by simp
  have h3: "parseStored (studyLog ?st) = Inr log2025 \<and> (\<forall>e\<in>set log2025. validTime (ts e)) \<and>
    validTime (daysAgo ?now 7) \<and> validTime (daysAgo ?now 1) \<and>
    seoulOffset (daysAgo ?now 7) = seoulOffset ?now \<and>
    seoulOffset (daysAgo ?now 1) = seoulOffset ?now"
    using p v by (simp add: z)
  have h4: "(\<forall>e\<in>set log2025. sameYearWidth seoulOffset (ts e) (daysAgo ?now 7)) \<and>
    sameYearWidth seoulOffset (daysAgo ?now 1) (daysAgo ?now 7)"
    using w by simp
  note yd = mp [OF conjunct2 [OF mp [OF conjunct1 [OF r] h1]] h2]
  note wd = mp [OF conjunct2 [OF mp [OF conjunct1 [OF conjunct2 [OF r]] h3]] h4]
  from yd wd
  have "getYesterdayReviewSet seoulOffset 30 ?now ?st
          = Inr (slice0 (rankEvents
              (filter (\<lambda>e. kstDay seoulOffset (ts e) = kstDay seoulOffset ?now - 1) log2025)) 30)"
    and "getLast7DaysReviewSet seoulOffset 30 ?now ?now ?st
          = Inr (slice0 (rankEvents
              (filter (\<lambda>e. kstDay seoulOffset ?now - 7 \<le> kstDay seoulOffset (ts e)
                  \<and> kstDay seoulOffset (ts e) \<le> kstDay seoulOffset ?now - 1) log2025)) 30)"
    by this+
  then have "getYesterdayReviewSet seoulOffset 30 ?now ?st = Inr [''D1W1'', ''D1P'']"
    and "getLast7DaysReviewSet seoulOffset 30 ?now ?now ?st = Inr [''D1W1'', ''D1P'', ''D1W2'']"
    by (simp_all add: log2025_def d rank_eval slice0_def)
  then have main: "getYesterdayReviewSet seoulOffset 30 ?now ?st = Inr [''D1W1'', ''D1P'']"
    "getLast7DaysReviewSet seoulOffset 30 ?now ?now ?st = Inr [''D1W1'', ''D1P'', ''D1W2'']"
    by simp_all
  let ?e1 = "\<lparr>itemId = ''D1W1'', itemType = ''word'', outcome = ''wrong'', ts = 1736434800000\<rparr>"
  let ?st1 = "\<lparr>studyLog = Parsed [?e1], quizItems = Absent, pathname = ''/index.html'',
      alerts = [], container = None, current = 0\<rparr>"
  note r1 = review_set_windows [where st = ?st1 and e = ?e1 and zone = seoulOffset and now = ?now]
  have h7: "studyLog ?st1 = Parsed [?e1] \<and> validTime (ts ?e1) \<and> itemId ?e1 \<noteq> ''__proto__'' \<and>
    kstDay seoulOffset (ts ?e1) = jan2025 10 \<and>
    validTime (daysAgo ?now 1) \<and> seoulOffset (daysAgo ?now 1) = seoulOffset ?now"
    using v by (simp add: d z jan2025_def validTime_def)
  have k: "kstDay seoulOffset ?now = jan2025 11" by (simp add: d jan2025_def)
  note c7 = conjunct1 [OF conjunct2 [OF conjunct2 [OF conjunct2 [OF conjunct2 [OF conjunct2
      [OF conjunct2 [OF r1]]]]]]]
  have ex: "getYesterdayReviewSet seoulOffset 30 ?now ?st1 = Inr [''D1W1'']"
    using mp [OF conjunct1 [OF mp [OF c7 h7]] k] by simp
  let ?e2 = "\<lparr>itemId = ''D1W1'', itemType = ''word'', outcome = ''wrong'', ts = 8640000000000001\<rparr>"
  let ?st2 = "\<lparr>studyLog = Parsed [?e2], quizItems = Absent, pathname = ''/index.html'',
      alerts = [], container = None, current = 0\<rparr>"
  note r2 = review_set_windows [where st = ?st2 and log = "[?e2]" and zone = seoulOffset
      and now = ?now and maxItems = 30]
  have h3: "parseStored (studyLog ?st2) = Inr [?e2] \<and> (\<exists>e\<in>set [?e2]. \<not> validTime (ts e))"
    by (simp add: parseStored_def validTime_def)
  note c3 = conjunct1 [OF conjunct2 [OF conjunct2 [OF r2]]]
  have inv: "getLast7DaysReviewSet seoulOffset 30 ?now ?now ?st2 = Inl RangeError"
    using mp [OF c3 h3] by simp
  show ?thesis using main ex inv s z by simp
qed

end
